theory Spec2Isabelle
  imports Complex_Main "HOL-Library.Log_Nat"
begin

section \<open>VideoFreeze: frame sampling, metrics and best-frame selection\<close>

text \<open>
  A shallow embedding of the \<^verbatim>\<open>analyzer\<close> package: \<^verbatim>\<open>frame_extractor.py\<close>,
  \<^verbatim>\<open>sharpness.py\<close>, \<^verbatim>\<open>face_detector.py\<close>, \<^verbatim>\<open>brightness.py\<close>,
  \<^verbatim>\<open>composition.py\<close> and \<^verbatim>\<open>aesthetic_scorer.py\<close>.

  Python integers are \<^typ>\<open>int\<close> or \<^typ>\<open>nat\<close>. A Python float is a \<^typ>\<open>real\<close>; its
  arithmetic is exact in the scores and timestamps, which are continuous in their
  inputs, and rounded to binary64 where the source truncates a quotient to an integer
  (the sampling interval), since there the rounding decides the result. The results of
  the OpenCV and NumPy calls on a frame (grey conversion, Laplacian, cascade detector,
  histogram, mean, standard deviation, Canny edge map) are not recomputed: a frame is
  the record of what those calls return, and the arithmetic the Python performs on them
  is modelled in full.
\<close>

subsection \<open>Errors\<close>

text \<open>
  Every \<^verbatim>\<open>raise\<close> of the source is a constructor:
  \<^item> \<open>SourceUnreadable\<close>: \<^verbatim>\<open>ValueError("Could not open video file: ...")\<close>;
  \<^item> \<open>RateIndeterminate\<close>: \<^verbatim>\<open>RuntimeError("Could not determine video FPS")\<close>;
  \<^item> \<open>NoFramesExtracted\<close>: \<^verbatim>\<open>RuntimeError("No frames were extracted from video")\<close>;
  \<^item> \<open>EmptyInput\<close>: \<^verbatim>\<open>ValueError("No frames provided")\<close>;
  \<^item> \<open>ZeroDivisionError\<close>: Python's float division by zero;
  \<^item> \<open>OverflowError\<close>: Python's \<^verbatim>\<open>int\<close> of an infinite float;
  \<^item> \<open>ZeroSizeReduction\<close>: NumPy's \<^verbatim>\<open>ValueError\<close> for \<^verbatim>\<open>max\<close> of a zero-size array;
  \<^item> \<open>IndexError\<close>: a list index out of range;
  \<^item> \<open>CallbackRaised\<close>: an exception raised by the caller's progress callback.
\<close>

datatype error =
    SourceUnreadable
  | RateIndeterminate
  | NoFramesExtracted
  | EmptyInput
  | ZeroDivisionError
  | OverflowError
  | ZeroSizeReduction
  | IndexError
  | CallbackRaised

subsection \<open>Frames\<close>

text \<open>
  \<open>gray_height\<close>, \<open>gray_width\<close>: \<^verbatim>\<open>gray.shape\<close>;
  \<open>laplacian_var\<close>: \<^verbatim>\<open>cv2.Laplacian(gray, cv2.CV_64F).var()\<close>;
  \<open>faces\<close>: the boxes \<open>(x, y, w, h)\<close> of \<^verbatim>\<open>detectMultiScale\<close>;
  \<open>gray_mean\<close>, \<open>gray_std\<close>: \<^verbatim>\<open>np.mean(gray)\<close>, \<^verbatim>\<open>np.std(gray)\<close>;
  \<open>hist\<close>: the 256 bin counts of \<^verbatim>\<open>cv2.calcHist\<close>;
  \<open>edges\<close>: the rows of \<^verbatim>\<open>cv2.Canny(gray, 50, 150)\<close>, an 8-bit map.
\<close>

record frame =
  gray_height :: nat
  gray_width :: nat
  laplacian_var :: real
  faces :: "(int \<times> int \<times> int \<times> int) list"
  gray_mean :: real
  gray_std :: real
  hist :: "nat list"
  edges :: "nat list list"

text \<open>Python's \<^verbatim>\<open>xs[a:b]\<close> for \<open>0 \<le> a\<close> and \<open>0 \<le> b\<close>.\<close>

definition slice :: "'a list \<Rightarrow> nat \<Rightarrow> nat \<Rightarrow> 'a list" where
  "slice xs a b = take (b - a) (drop a xs)"

text \<open>NumPy's \<^verbatim>\<open>m[y1:y2, x1:x2]\<close> on a matrix given by its rows.\<close>

definition slice2 :: "'a list list \<Rightarrow> nat \<Rightarrow> nat \<Rightarrow> nat \<Rightarrow> nat \<Rightarrow> 'a list list" where
  "slice2 m y1 y2 x1 x2 = map (\<lambda>row. slice row x1 x2) (slice m y1 y2)"

definition np_sum :: "nat list list \<Rightarrow> nat" where
  "np_sum m = sum_list (concat m)"

definition np_size :: "'a list list \<Rightarrow> nat" where
  "np_size m = length (concat m)"

subsection \<open>Sharpness (\<^verbatim>\<open>sharpness.py\<close>)\<close>

definition calculate_sharpness :: "frame \<Rightarrow> real" where
  "calculate_sharpness f =
     (let variance = laplacian_var f;
          normalized_score = min 100 (variance / 10)
      in normalized_score)"

subsection \<open>Faces (\<^verbatim>\<open>face_detector.py\<close>)\<close>

text \<open>The loop \<^verbatim>\<open>for (x, y, w, h) in faces: total_face_area += w * h\<close>.\<close>

fun total_face_area :: "(int \<times> int \<times> int \<times> int) list \<Rightarrow> int \<Rightarrow> int" where
  "total_face_area [] acc = acc"
| "total_face_area ((x, y, w, h) # rest) acc = total_face_area rest (acc + w * h)"

definition detect_faces :: "frame \<Rightarrow> real \<times> nat" where
  "detect_faces f =
     (let frame_area = gray_height f * gray_width f;
          face_count = length (faces f)
      in if face_count = 0 then (0, 0)
         else
           let face_coverage = (real_of_int (total_face_area (faces f) 0) / real frame_area) * 100;
               base_score = min (face_coverage * 3) 70;
               count_bonus =
                 (if 1 \<le> face_count \<and> face_count \<le> 3 then 30
                  else if face_count = 4 then 20
                  else if face_count = 5 then 10
                  else 5);
               total_score = min (base_score + count_bonus) 100
           in (total_score, face_count))"

subsection \<open>Brightness (\<^verbatim>\<open>brightness.py\<close>)\<close>

definition hist_norm :: "frame \<Rightarrow> real list" where
  "hist_norm f =
     (let total_pixels = gray_height f * gray_width f
      in map (\<lambda>c. real c / real total_pixels) (hist f))"

definition dark_pixels :: "frame \<Rightarrow> real" where
  "dark_pixels f = sum_list (slice (hist_norm f) 0 10)"

definition bright_pixels :: "frame \<Rightarrow> real" where
  "bright_pixels f = sum_list (slice (hist_norm f) 246 256)"

definition brightness_score :: "real \<Rightarrow> real" where
  "brightness_score mean_brightness =
     (let ideal_brightness = 127;
          brightness_deviation = \<bar>mean_brightness - ideal_brightness\<bar> / 127
      in (1 - brightness_deviation) * 50)"

definition clipping_score :: "real \<Rightarrow> real \<Rightarrow> real" where
  "clipping_score dark bright =
     (let clipping_penalty = (dark + bright) * 100
      in max 0 (30 - clipping_penalty))"

definition contrast_score :: "real \<Rightarrow> real" where
  "contrast_score std_brightness =
     (if 40 \<le> std_brightness \<and> std_brightness \<le> 80 then 20
      else if (30 \<le> std_brightness \<and> std_brightness < 40)
              \<or> (80 < std_brightness \<and> std_brightness \<le> 100) then 15
      else if (20 \<le> std_brightness \<and> std_brightness < 30)
              \<or> (100 < std_brightness \<and> std_brightness \<le> 120) then 10
      else 5)"

definition calculate_brightness_balance :: "frame \<Rightarrow> real" where
  "calculate_brightness_balance f =
     (let total_score = brightness_score (gray_mean f)
                        + clipping_score (dark_pixels f) (bright_pixels f)
                        + contrast_score (gray_std f)
      in min 100 (max 0 total_score))"

subsection \<open>Composition (\<^verbatim>\<open>composition.py\<close>)\<close>

text \<open>
  \<^verbatim>\<open>np.sum\<close> of an 8-bit array is an unsigned 64-bit scalar, and arithmetic on two such
  scalars stays unsigned 64-bit: a difference below zero wraps around.
\<close>

definition u64_add :: "nat \<Rightarrow> nat \<Rightarrow> nat" where
  "u64_add a b = (a + b) mod 2 ^ 64"

definition u64_sub :: "nat \<Rightarrow> nat \<Rightarrow> nat" where
  "u64_sub a b = nat ((int a - int b) mod 2 ^ 64)"

definition rot_points :: "frame \<Rightarrow> (nat \<times> nat) list" where
  "rot_points f =
     (let third_h = gray_height f div 3;
          third_w = gray_width f div 3
      in [(third_w, third_h), (2 * third_w, third_h),
          (third_w, 2 * third_h), (2 * third_w, 2 * third_h)])"

definition rot_region :: "frame \<Rightarrow> nat \<times> nat \<Rightarrow> nat list list" where
  "rot_region f p =
     (case p of (rot_x, rot_y) \<Rightarrow>
        let height = gray_height f;
            width = gray_width f;
            check_radius = max height width div 12;
            y1 = nat (max 0 (int rot_y - int check_radius));
            y2 = min height (rot_y + check_radius);
            x1 = nat (max 0 (int rot_x - int check_radius));
            x2 = min width (rot_x + check_radius)
        in slice2 (edges f) y1 y2 x1 x2)"

definition edge_density :: "nat list list \<Rightarrow> real" where
  "edge_density region = real (np_sum region) / real (np_size region)"

text \<open>The loop \<^verbatim>\<open>for rot_x, rot_y in rot_points\<close> with its accumulator \<^verbatim>\<open>total_score\<close>.\<close>

fun rot_loop :: "frame \<Rightarrow> (nat \<times> nat) list \<Rightarrow> real \<Rightarrow> real" where
  "rot_loop f [] total_score = total_score"
| "rot_loop f (p # ps) total_score =
     (let region = rot_region f p
      in if np_size region > 0
         then rot_loop f ps (total_score + min 25 (edge_density region / 10))
         else rot_loop f ps total_score)"

definition balance :: "nat \<Rightarrow> nat \<Rightarrow> real" where
  "balance a b =
     (if u64_add a b > 0 then 1 - real (u64_sub a b) / real (u64_add a b) else 0)"

definition center_penalty :: "frame \<Rightarrow> real" where
  "center_penalty f =
     (let third_h = gray_height f div 3;
          third_w = gray_width f div 3;
          center_region = slice2 (edges f) third_h (2 * third_h) third_w (2 * third_w)
      in if np_sum (edges f) > 0
         then (let center_weight = real (np_sum center_region) / real (np_sum (edges f))
               in if center_weight > 1 / 2 then max 0 ((center_weight - 1 / 2) * 20) else 0)
         else 0)"

text \<open>
  The interest map has \<open>height div 20\<close> rows and \<open>width div 20\<close> columns; its values are
  not used by the score, but \<^verbatim>\<open>interest_map.max()\<close> raises on a zero-size map.
  The edge map has the shape of the grey image, so \<^verbatim>\<open>:\<close> on an axis is the whole
  height or width.
\<close>

definition balance_score :: "frame \<Rightarrow> real" where
  "balance_score f =
     (let height = gray_height f;
          width = gray_width f;
          left_edges = np_sum (slice2 (edges f) 0 height 0 (width div 2));
          right_edges = np_sum (slice2 (edges f) 0 height (width div 2) width);
          top_edges = np_sum (slice2 (edges f) 0 (height div 2) 0 width);
          bottom_edges = np_sum (slice2 (edges f) (height div 2) height 0 width);
          lr_balance = balance left_edges right_edges;
          tb_balance = balance top_edges bottom_edges
      in (lr_balance + tb_balance) * 10)"

definition calculate_composition_score :: "frame \<Rightarrow> error + real" where
  "calculate_composition_score f =
     (let height = gray_height f;
          width = gray_width f;
          grid_size = 20
      in if (height div grid_size) * (width div grid_size) = 0 then Inl ZeroSizeReduction
         else
           let total_score = rot_loop f (rot_points f) 0;
               final_score = total_score + balance_score f - center_penalty f
           in Inr (min 100 (max 0 final_score)))"

subsection \<open>Scorer and selector (\<^verbatim>\<open>aesthetic_scorer.py\<close>)\<close>

record weights =
  w_sharpness :: real
  w_face_clarity :: real
  w_brightness :: real
  w_composition :: real

record scores =
  overall :: real
  sharpness :: real
  face_clarity :: real
  face_count :: nat
  brightness :: real
  composition :: real

definition DEFAULT_WEIGHTS :: weights where
  "DEFAULT_WEIGHTS =
     \<lparr>w_sharpness = 30 / 100, w_face_clarity = 25 / 100,
      w_brightness = 20 / 100, w_composition = 25 / 100\<rparr>"

definition score_frame :: "frame \<Rightarrow> weights option \<Rightarrow> error + scores" where
  "score_frame f weights_arg =
     (let weights = (case weights_arg of None \<Rightarrow> DEFAULT_WEIGHTS | Some w \<Rightarrow> w);
          sharpness_v = calculate_sharpness f;
          (face_score, face_count_v) = detect_faces f;
          brightness_v = calculate_brightness_balance f
      in case calculate_composition_score f of
           Inl e \<Rightarrow> Inl e
         | Inr composition_v \<Rightarrow>
             let overall_score =
                   sharpness_v * w_sharpness weights
                   + face_score * w_face_clarity weights
                   + brightness_v * w_brightness weights
                   + composition_v * w_composition weights
             in Inr \<lparr>overall = overall_score, sharpness = sharpness_v,
                     face_clarity = face_score, face_count = face_count_v,
                     brightness = brightness_v, composition = composition_v\<rparr>)"

type_synonym sample = "frame \<times> real"

text \<open>
  The progress callback is the caller's code. It runs in the middle of the scan, with
  no \<^verbatim>\<open>try\<close> around it, and it can reach what the caller shares with the scan: the
  list of samples and the weights mapping in force (the caller's, or the module's
  default). A world is the callback's own state together with these two; a call
  returns the world it leaves and, when it raises, the exception. \<open>truthy\<close> is the
  truth value of the callback object, which
  \<^verbatim>\<open>if progress_callback: progress_callback(i + 1, len(frames))\<close> tests.
\<close>

type_synonym 'h world = "'h \<times> sample list \<times> weights option"

record 'h callback =
  truthy :: bool
  invoke :: "nat \<Rightarrow> nat \<Rightarrow> 'h world \<Rightarrow> error option \<times> 'h world"

definition call_progress ::
  "'h callback option \<Rightarrow> nat \<Rightarrow> 'h world \<Rightarrow> error option \<times> 'h world" where
  "call_progress progress_callback current wld =
     (case progress_callback of
        None \<Rightarrow> (None, wld)
      | Some c \<Rightarrow>
          if truthy c then invoke c current (length (fst (snd wld))) wld else (None, wld))"

text \<open>
  The loop of \<^verbatim>\<open>find_best_frame\<close>. Its state is
  \<open>(best_index, best_score, best_scores_dict)\<close>. The list iterator reads the list at
  index \<open>i\<close> as long as \<open>i\<close> is below the current length, so a callback that keeps
  appending keeps the loop running: the loop is a partial function, \<open>None\<close> when it does
  not end.
\<close>

type_synonym best = "nat \<times> real \<times> scores option"

partial_function (option) find_best_loop ::
  "'h callback option \<Rightarrow> nat \<Rightarrow> best \<Rightarrow> 'h world \<Rightarrow> ((error + best) \<times> 'h world) option" where
  "find_best_loop cb i st wld =
     (let frames = fst (snd wld); weights = snd (snd wld)
      in if i < length frames then
           (let frame = fst (frames ! i)
            in case score_frame frame weights of
                 Inl e \<Rightarrow> Some (Inl e, wld)
               | Inr scores \<Rightarrow>
                   (let st' = (case st of (best_index, best_score, best_scores_dict) \<Rightarrow>
                                 if overall scores > best_score then (i, overall scores, Some scores)
                                 else (best_index, best_score, best_scores_dict))
                    in case call_progress cb (i + 1) wld of
                         (Some e, wld') \<Rightarrow> Some (Inl e, wld')
                       | (None, wld') \<Rightarrow> find_best_loop cb (i + 1) st' wld'))
         else Some (Inr st, wld))"

definition find_best_frame ::
  "sample list \<Rightarrow> weights option \<Rightarrow> 'h callback option \<Rightarrow> 'h
   \<Rightarrow> ((error + nat \<times> frame \<times> real \<times> scores option) \<times> 'h world) option" where
  "find_best_frame frames w cb h =
     (if frames = [] then Some (Inl EmptyInput, (h, frames, w))
      else
        case find_best_loop cb 0 (0, - 1, None) (h, frames, w) of
          None \<Rightarrow> None
        | Some (Inl e, wld) \<Rightarrow> Some (Inl e, wld)
        | Some (Inr (best_index, best_score, best_scores_dict), wld) \<Rightarrow>
            if best_index < length (fst (snd wld))
            then (case fst (snd wld) ! best_index of
                    (best_frame, best_timestamp) \<Rightarrow>
                      Some (Inr (best_index, best_frame, best_timestamp, best_scores_dict), wld))
            else Some (Inl IndexError, wld))"

partial_function (option) score_all_loop ::
  "'h callback option \<Rightarrow> nat \<Rightarrow> (real \<times> scores) list \<Rightarrow> 'h world
   \<Rightarrow> ((error + (real \<times> scores) list) \<times> 'h world) option" where
  "score_all_loop cb i results wld =
     (let frames = fst (snd wld); weights = snd (snd wld)
      in if i < length frames then
           (let frame = fst (frames ! i); timestamp = snd (frames ! i)
            in case score_frame frame weights of
                 Inl e \<Rightarrow> Some (Inl e, wld)
               | Inr scores \<Rightarrow>
                   (case call_progress cb (i + 1) wld of
                      (Some e, wld') \<Rightarrow> Some (Inl e, wld')
                    | (None, wld') \<Rightarrow>
                        score_all_loop cb (i + 1) (results @ [(timestamp, scores)]) wld'))
         else Some (Inr results, wld))"

definition score_all_frames ::
  "sample list \<Rightarrow> weights option \<Rightarrow> 'h callback option \<Rightarrow> 'h
   \<Rightarrow> ((error + (real \<times> scores) list) \<times> 'h world) option" where
  "score_all_frames frames w cb h = score_all_loop cb 0 [] (h, frames, w)"

subsection \<open>Frame extraction (\<^verbatim>\<open>frame_extractor.py\<close>)\<close>

text \<open>
  A video is what the capture object answers: \<^verbatim>\<open>isOpened()\<close>, \<^verbatim>\<open>CAP_PROP_FPS\<close>, and
  the frames that successive \<^verbatim>\<open>read()\<close> calls return before the first failed read.
  (\<^verbatim>\<open>total_frames\<close> and \<^verbatim>\<open>duration\<close> are computed by the source and never used.)
\<close>

record video =
  is_opened :: bool
  video_fps :: real
  decoded :: "frame list"

text \<open>
  Binary64 arithmetic. \<open>round_half_even\<close> is rounding to the nearest integer, ties to
  the even one. \<open>float64_exponent x\<close> is the exponent \<open>e\<close> of the binade
  \<open>2^e \<le> |x| < 2^(e+1)\<close> of \<open>x\<close> (computed from the bit length of the integer part, or of
  the reciprocal's), and not less than \<open>- 1022\<close>, where the subnormal numbers begin;
  neighbouring doubles around \<open>x\<close> are \<open>2^(e - 52)\<close> apart. \<open>float64 x\<close> is the double
  nearest to \<open>x\<close>, with no bound on the exponent: the machine result is infinite when
  \<open>|float64 x|\<close> reaches \<open>2^1024\<close>. A float that a function receives is a double: a real
  that is not one stands for the double nearest to it, as the literal \<^verbatim>\<open>0.1\<close> does, so
  float arguments are read through \<open>float64\<close>, which leaves a double as it is. The
  float division whose result is truncated to the stride is the exact quotient of its
  operands, rounded.
\<close>

definition round_half_even :: "real \<Rightarrow> int" where
  "round_half_even y =
     (let f = \<lfloor>y\<rfloor>; r = y - of_int f
      in if r < 1 / 2 then f else if 1 / 2 < r then f + 1 else if even f then f else f + 1)"

definition float64_exponent :: "real \<Rightarrow> int" where
  "float64_exponent x =
     (let a = \<bar>x\<bar>;
          e = (if 1 \<le> a then bitlen \<lfloor>a\<rfloor> - 1 else - bitlen (\<lceil>1 / a\<rceil> - 1))
      in max e (- 1022))"

definition float64_ulp :: "real \<Rightarrow> real" where
  "float64_ulp x = 2 powi (float64_exponent x - 52)"

definition float64 :: "real \<Rightarrow> real" where
  "float64 x = of_int (round_half_even (x / float64_ulp x)) * float64_ulp x"

definition float_div :: "real \<Rightarrow> real \<Rightarrow> real" where
  "float_div a b = float64 (float64 a / float64 b)"

text \<open>Python's \<^verbatim>\<open>int(x)\<close> on a finite float truncates towards zero.\<close>

definition py_int :: "real \<Rightarrow> int" where
  "py_int x = (if 0 \<le> x then \<lfloor>x\<rfloor> else \<lceil>x\<rceil>)"

text \<open>
  \<^verbatim>\<open>frame_interval = int(video_fps / fps)\<close>, then
  \<^verbatim>\<open>if frame_interval < 1: frame_interval = 1\<close>, for a finite quotient.
\<close>

definition frame_interval :: "real \<Rightarrow> real \<Rightarrow> int" where
  "frame_interval vfps fps =
     (let fi = py_int (float_div vfps fps) in if fi < 1 then 1 else fi)"

text \<open>
  The \<^verbatim>\<open>while True\<close> loop over the reads, with \<^verbatim>\<open>frame_count\<close> and \<^verbatim>\<open>frames\<close>. The
  timestamp \<^verbatim>\<open>frame_count / video_fps\<close> is a value that no branch reads: it is kept as
  the exact quotient.
\<close>

fun read_loop :: "real \<Rightarrow> int \<Rightarrow> frame list \<Rightarrow> nat \<Rightarrow> sample list \<Rightarrow> sample list" where
  "read_loop vfps fi [] frame_count frames = frames"
| "read_loop vfps fi (frame # rest) frame_count frames =
     read_loop vfps fi rest (frame_count + 1)
       (if int frame_count mod fi = 0
        then frames @ [(frame, real frame_count / vfps)]
        else frames)"

definition extract_frames :: "video \<Rightarrow> real \<Rightarrow> error + sample list" where
  "extract_frames v fps_arg =
     (let vfps = float64 (video_fps v);
          fps = float64 fps_arg
      in if \<not> is_opened v then Inl SourceUnreadable
         else if vfps = 0 then Inl RateIndeterminate
         else if fps = 0 then Inl ZeroDivisionError
         else if 2 ^ 1024 \<le> \<bar>float_div vfps fps\<bar> then Inl OverflowError
         else
           let fi = frame_interval vfps fps;
               frames = read_loop vfps fi (decoded v) 0 []
           in if length frames = 0 then Inl NoFramesExtracted else Inr frames)"

subsection \<open>The specification's formulas\<close>

text \<open>
  The formulas of the specification, written from its words, to compare with the
  functions above.
\<close>

definition spec_clamp :: "real \<Rightarrow> real \<Rightarrow> real \<Rightarrow> real" where
  "spec_clamp x lo hi = max lo (min hi x)"

definition spec_centering :: "real \<Rightarrow> real" where
  "spec_centering mu = 50 * (1 - \<bar>mu - 127\<bar> / 127)"

definition spec_clipping :: "real \<Rightarrow> real" where
  "spec_clipping clip = max 0 (30 - clip * 100)"

definition spec_contrast :: "real \<Rightarrow> real" where
  "spec_contrast sigma =
     (if sigma \<in> {40..80} then 20
      else if sigma \<in> {30..<40} \<union> {80<..100} then 15
      else if sigma \<in> {20..<30} \<union> {100<..120} then 10
      else 5)"

definition spec_coverage :: "frame \<Rightarrow> real" where
  "spec_coverage f =
     100 * real_of_int (\<Sum>(x, y, w, h)\<leftarrow>faces f. w * h) / real (gray_height f * gray_width f)"

definition spec_face_bonus :: "nat \<Rightarrow> real" where
  "spec_face_bonus n =
     (if n \<in> {1..3} then 30 else if n = 4 then 20 else if n = 5 then 10 else 5)"

definition spec_stride :: "real \<Rightarrow> real \<Rightarrow> nat" where
  "spec_stride F R = nat (max 1 (round (F / R)))"

text \<open>
  The native frames whose index \<open>k\<close> satisfies \<open>k mod stride = 0\<close>, in order, each with
  the timestamp \<open>k / F\<close>.
\<close>

definition kept_samples :: "nat \<Rightarrow> real \<Rightarrow> frame list \<Rightarrow> sample list" where
  "kept_samples stride F frames =
     map (\<lambda>(k, frame). (frame, real k / F))
       (filter (\<lambda>(k, frame). k mod stride = 0) (enumerate 0 frames))"

text \<open>
  The fraction of edge pixels (non-zero entries) of a window of the edge map, and the
  rule-of-thirds contribution read with that fraction as the density: for each of the
  four points, \<open>min(25, density / 10)\<close>.
\<close>

definition edge_count :: "nat list list \<Rightarrow> nat" where
  "edge_count region = length (filter (\<lambda>v. v \<noteq> 0) (concat region))"

definition edge_fraction :: "nat list list \<Rightarrow> real" where
  "edge_fraction region = real (edge_count region) / real (np_size region)"

definition fraction_contribution :: "frame \<Rightarrow> real" where
  "fraction_contribution f =
     (\<Sum>p\<leftarrow>rot_points f. min 25 (edge_fraction (rot_region f p) / 10))"

text \<open>
  The same contribution with the density on the scale of the edge map, whose edge
  pixels have the value 255; an empty window contributes nothing.
\<close>

definition scaled_contribution :: "frame \<Rightarrow> real" where
  "scaled_contribution f =
     (\<Sum>p\<leftarrow>rot_points f.
        if np_size (rot_region f p) = 0 then 0
        else min 25 (255 * edge_fraction (rot_region f p) / 10))"

text \<open>An edge map as Canny produces it: every entry is 0 or 255.\<close>

definition binary_edges :: "frame \<Rightarrow> bool" where
  "binary_edges f \<longleftrightarrow> list_all (list_all (\<lambda>v. v = 0 \<or> v = 255)) (edges f)"

subsection \<open>Auxiliary notions for the statements\<close>

text \<open>
  The samples that a scan scores before it stops: all of them, or those before the
  first one whose scoring raises.
\<close>

definition scored_prefix :: "weights option \<Rightarrow> sample list \<Rightarrow> sample list" where
  "scored_prefix w frames =
     takeWhile (\<lambda>(frame, timestamp). case score_frame frame w of Inl e \<Rightarrow> False | Inr s \<Rightarrow> True)
       frames"

text \<open>
  The scan of a fixed sample list with fixed weights, from index \<open>i\<close>: what the loops
  compute when nothing changes the list or the weights under them. These two functions
  serve the proofs; the statements are about the loops above.
\<close>

fun scan_best :: "weights option \<Rightarrow> sample list \<Rightarrow> nat \<Rightarrow> best \<Rightarrow> error + best" where
  "scan_best w [] i st = Inr st"
| "scan_best w ((frame, timestamp) # rest) i (best_index, best_score, best_scores_dict) =
     (case score_frame frame w of
        Inl e \<Rightarrow> Inl e
      | Inr scores \<Rightarrow>
          scan_best w rest (i + 1)
            (if overall scores > best_score then (i, overall scores, Some scores)
             else (best_index, best_score, best_scores_dict)))"


text \<open>
  A callback that is advisory: there is none, or its object is falsy (it is never
  called), or every call of it returns normally and leaves the samples and the weights
  as they were.
\<close>

definition advisory :: "'h callback option \<Rightarrow> bool" where
  "advisory cb \<longleftrightarrow>
     (case cb of
        None \<Rightarrow> True
      | Some c \<Rightarrow>
          truthy c \<longrightarrow>
            (\<forall>current n wld. fst (invoke c current n wld) = None
                \<and> snd (snd (invoke c current n wld)) = snd wld))"

text \<open>
  The state of the callback after the calls of a scan that scores the samples at the
  indices \<open>i, \<dots>, i + m - 1\<close> of a list that stays as it is.
\<close>

definition callback_state ::
  "'h callback option \<Rightarrow> sample list \<Rightarrow> weights option \<Rightarrow> nat \<Rightarrow> nat \<Rightarrow> 'h \<Rightarrow> 'h" where
  "callback_state cb frames w i m h =
     foldl (\<lambda>s k. fst (snd (call_progress cb (k + 1) (s, frames, w)))) h [i..<i + m]"

text \<open>
  What holds of every frame the library calls describe: a variance is not negative and
  a detected box has no negative side. A frame below 20 pixels in either dimension makes
  the composition metric raise, which aborts a scan; the selection properties are about
  scans that score every sample.
\<close>

definition wf_frame :: "frame \<Rightarrow> bool" where
  "wf_frame f \<longleftrightarrow>
     20 \<le> gray_height f \<and> 20 \<le> gray_width f \<and> 0 \<le> laplacian_var f
     \<and> list_all (\<lambda>(x, y, w, h). 0 \<le> w \<and> 0 \<le> h) (faces f)"

text \<open>The weights in force, and the specification's weight sets: no weight is negative.\<close>

definition weights_used :: "weights option \<Rightarrow> weights" where
  "weights_used w = (case w of None \<Rightarrow> DEFAULT_WEIGHTS | Some x \<Rightarrow> x)"

definition weight_set :: "weights option \<Rightarrow> bool" where
  "weight_set w \<longleftrightarrow>
     0 \<le> w_sharpness (weights_used w) \<and> 0 \<le> w_face_clarity (weights_used w)
     \<and> 0 \<le> w_brightness (weights_used w) \<and> 0 \<le> w_composition (weights_used w)"

text \<open>The weighted sum of the four metric values of a score record.\<close>

definition weighted_sum :: "weights \<Rightarrow> scores \<Rightarrow> real" where
  "weighted_sum w s =
     sharpness s * w_sharpness w + face_clarity s * w_face_clarity w
     + brightness s * w_brightness w + composition s * w_composition w"

subsection \<open>Example inputs\<close>

text \<open>
  A 20 by 20 frame whose edge map is one vertical line of edge pixels in column 6, and
  an all-white frame of the same size.
\<close>

definition line_frame :: frame where
  "line_frame =
     \<lparr>gray_height = 20, gray_width = 20, laplacian_var = 250, faces = [],
      gray_mean = 100, gray_std = 50,
      hist = replicate 75 0 @ [320] @ replicate 124 0 @ [80] @ replicate 55 0,
      edges = replicate 20 (replicate 6 0 @ [255] @ replicate 13 0)\<rparr>"

definition white_frame :: frame where
  "white_frame =
     \<lparr>gray_height = 20, gray_width = 20, laplacian_var = 0, faces = [],
      gray_mean = 255, gray_std = 0,
      hist = replicate 255 0 @ [400],
      edges = replicate 20 (replicate 20 0)\<rparr>"

text \<open>A 640 by 480 frame with one detected face of 80 by 80 pixels.\<close>

definition face_frame :: frame where
  "face_frame =
     \<lparr>gray_height = 480, gray_width = 640, laplacian_var = 250, faces = [(100, 100, 80, 80)],
      gray_mean = 100, gray_std = 50,
      hist = replicate 75 0 @ [245760] @ replicate 124 0 @ [61440] @ replicate 55 0,
      edges = replicate 480 (replicate 640 0)\<rparr>"

definition negative_rate_video :: video where
  "negative_rate_video = \<lparr>is_opened = True, video_fps = - 30, decoded = [line_frame, white_frame]\<rparr>"

definition zero_rate_video :: video where
  "zero_rate_video = \<lparr>is_opened = True, video_fps = 0, decoded = [line_frame, white_frame]\<rparr>"

definition thirty_fps_video :: video where
  "thirty_fps_video =
     \<lparr>is_opened = True, video_fps = 30,
      decoded = [line_frame, white_frame, line_frame, white_frame, line_frame]\<rparr>"

definition tie_samples :: "sample list" where
  "tie_samples = [(white_frame, 0), (line_frame, 1), (line_frame, 2)]"

definition line_scores :: scores where
  "line_scores =
     \<lparr>overall = 34797 / 1016, sharpness = 25, face_clarity = 0, face_count = 0,
      brightness = 11350 / 127, composition = 71 / 2\<rparr>"

definition white_scores :: scores where
  "white_scores =
     \<lparr>overall = 117 / 127, sharpness = 0, face_clarity = 0, face_count = 0,
      brightness = 585 / 127, composition = 0\<rparr>"

text \<open>
  Three progress callbacks: one appends its arguments to a log, one raises, one cuts the
  list of samples down to its first element.
\<close>

definition log_callback :: "(nat \<times> nat) list callback" where
  "log_callback =
     \<lparr>truthy = True,
      invoke = (\<lambda>current n wld. (None, (fst wld @ [(current, n)], snd wld)))\<rparr>"



text \<open>The double nearest to 0.1, as a target rate.\<close>

definition tenth :: real where
  "tenth = 3602879701896397 / 36028797018963968"

section \<open>Properties\<close>

subsection \<open>Empty input\<close>

text \<open>
  Claim C4, as stated: for every weight set, both \<open>find_best\<close> and \<open>score_all\<close> fail with
  \<open>EmptyInput\<close> on an empty sample list. The second half does not hold:
  \<^verbatim>\<open>score_all_frames\<close> has no guard, its loop body never runs, and it returns the empty
  list.
\<close>

theorem score_all_empty_counterexample:
  "map_option fst (score_all_frames [] None None ()) \<noteq> Some (Inl EmptyInput)"
  by (simp add: score_all_frames_def score_all_loop.simps)

text \<open>
  Claim C4, amended: for every weight set and progress callback, \<open>find_best\<close> on an empty
  sample list fails with \<open>EmptyInput\<close>, and \<open>score_all\<close> on an empty sample list returns
  the empty list; neither calls the progress callback.
\<close>

theorem empty_input:
  "find_best_frame [] w cb h = Some (Inl EmptyInput, (h, [], w))
   \<and> score_all_frames [] w cb h = Some (Inr [], (h, [], w))"
  by (simp add: find_best_frame_def score_all_frames_def score_all_loop.simps)

subsection \<open>Face metric\<close>

lemma total_face_area_sum:
  "total_face_area bs acc = acc + (\<Sum>(x, y, w, h)\<leftarrow>bs. w * h)"
  by (induction bs acc rule: total_face_area.induct) auto

text \<open>
  Claim C6: with zero faces the face metric returns exactly \<open>(0.0, 0)\<close>; with \<open>n \<ge> 1\<close>
  boxes the score is \<open>min(min(coverage * 3, 70) + bonus, 100)\<close>, where coverage is 100
  times the sum of the box areas (overlaps counted twice) over the frame area, and the
  bonus is 30 for 1 to 3 faces, 20 for 4, 10 for 5 and 5 for 6 or more; the count is \<open>n\<close>.
  (A frame in which a face is detected has a positive area. Box areas are unbounded
  integers here; 32-bit products do not overflow for frames below \<open>2^31\<close> pixels.)
\<close>

theorem detect_faces_formula:
  "(faces f = [] \<longrightarrow> detect_faces f = (0, 0))
   \<and> (1 \<le> length (faces f) \<and> 0 < gray_height f * gray_width f \<longrightarrow>
        detect_faces f =
          (min (min (spec_coverage f * 3) 70 + spec_face_bonus (length (faces f))) 100,
           length (faces f)))"
  by (auto simp: detect_faces_def spec_coverage_def spec_face_bonus_def total_face_area_sum Let_def)

theorem detect_faces_formula_witness:
  "1 \<le> length (faces face_frame) \<and> 0 < gray_height face_frame * gray_width face_frame
   \<and> detect_faces face_frame = (145 / 4, 1)
   \<and> faces white_frame = [] \<and> detect_faces white_frame = (0, 0)"
  using detect_faces_formula [of face_frame] detect_faces_formula [of white_frame]
  by (simp add: face_frame_def white_frame_def spec_coverage_def spec_face_bonus_def)

subsection \<open>Brightness metric\<close>

lemma centering_eq: "brightness_score m = spec_centering m"
  by (simp add: brightness_score_def spec_centering_def algebra_simps)

lemma clipping_eq: "clipping_score d b = spec_clipping (d + b)"
  by (simp add: clipping_score_def spec_clipping_def)

lemma contrast_eq: "contrast_score s = spec_contrast s"
  by (auto simp: contrast_score_def spec_contrast_def)

lemma clamp_eq: "min 100 (max 0 x) = spec_clamp x 0 100"
  by (simp add: spec_clamp_def)

lemma white_clip: "dark_pixels white_frame = 0 \<and> bright_pixels white_frame = 1"
  by (simp add: white_frame_def dark_pixels_def bright_pixels_def hist_norm_def slice_def
      sum_list_replicate)

lemma line_clip: "dark_pixels line_frame = 0 \<and> bright_pixels line_frame = 0"
  by (simp add: line_frame_def dark_pixels_def bright_pixels_def hist_norm_def slice_def
      sum_list_replicate)

text \<open>
  Claim C5, as stated, says that the centering term
  \<open>50 * (1 - |mu - 127| / 127)\<close> degrades to 0 at both extremes \<open>mu = 0\<close> and
  \<open>mu = 255\<close>. At \<open>mu = 255\<close> the deviation is \<open>128 / 127\<close>, so the term is
  \<open>- 50 / 127\<close>: an all-white frame scores \<open>5 - 50 / 127\<close>, not 5.
\<close>

theorem white_frame_centering_counterexample:
  "gray_mean white_frame = 255 \<and> brightness_score (gray_mean white_frame) \<noteq> 0
   \<and> calculate_brightness_balance white_frame = 585 / 127"
  by (simp add: calculate_brightness_balance_def white_clip)
     (simp add: white_frame_def brightness_score_def clipping_score_def contrast_score_def)

text \<open>
  Claim C5, amended: the brightness score is
  \<open>clamp(centering + clipping + contrast, 0, 100)\<close> with
  \<open>centering = 50 * (1 - |mu - 127| / 127)\<close>, linear on each side of 127, equal to 0 at
  \<open>mu = 0\<close> and at \<open>mu = 254\<close> and to \<open>- 50 / 127\<close> at \<open>mu = 255\<close>;
  \<open>clipping = max(0, 30 - clip * 100)\<close>; and the contrast step function of the claim
  (20 on \<open>[40, 80]\<close>, 15 on \<open>[30, 40)\<close> and \<open>(80, 100]\<close>, 10 on \<open>[20, 30)\<close> and
  \<open>(100, 120]\<close>, 5 otherwise), so that \<open>sigma = 40\<close> scores 20.
\<close>

theorem brightness_formula:
  "calculate_brightness_balance f =
     spec_clamp (spec_centering (gray_mean f)
                 + spec_clipping (dark_pixels f + bright_pixels f)
                 + spec_contrast (gray_std f)) 0 100
   \<and> (\<forall>mu. mu \<le> 127 \<longrightarrow> spec_centering mu = 50 * mu / 127)
   \<and> (\<forall>mu. 127 \<le> mu \<longrightarrow> spec_centering mu = 50 * (254 - mu) / 127)
   \<and> spec_centering 0 = 0 \<and> spec_centering 254 = 0 \<and> spec_centering 255 = - 50 / 127
   \<and> spec_contrast 40 = 20"
proof -
  have "calculate_brightness_balance f =
     spec_clamp (spec_centering (gray_mean f)
                 + spec_clipping (dark_pixels f + bright_pixels f)
                 + spec_contrast (gray_std f)) 0 100"
    by (simp add: calculate_brightness_balance_def centering_eq clipping_eq contrast_eq clamp_eq)
  moreover have "\<forall>mu. mu \<le> 127 \<longrightarrow> spec_centering mu = 50 * mu / 127"
    by (simp add: spec_centering_def field_simps)
  moreover have "\<forall>mu. 127 \<le> mu \<longrightarrow> spec_centering mu = 50 * (254 - mu) / 127"
    by (simp add: spec_centering_def field_simps)
  moreover have "spec_centering 0 = 0 \<and> spec_centering 254 = 0 \<and> spec_centering 255 = - 50 / 127"
    by (simp add: spec_centering_def)
  moreover have "spec_contrast 40 = 20"
    by (simp add: spec_contrast_def)
  ultimately show ?thesis by blast
qed

theorem brightness_formula_witness:
  "calculate_brightness_balance line_frame = 11350 / 127
   \<and> (100::real) \<le> 127 \<and> spec_centering 100 = 50 * 100 / 127
   \<and> (127::real) \<le> 200 \<and> spec_centering 200 = 50 * (254 - 200) / 127"
  using brightness_formula [of line_frame]
  by (simp add: line_clip)
     (simp add: line_frame_def spec_clamp_def spec_centering_def spec_clipping_def spec_contrast_def)

subsection \<open>Binary64 rounding\<close>

lemma round_half_even_bounds:
  "real_of_int (round_half_even y) \<le> y + 1 / 2 \<and> y - 1 / 2 \<le> real_of_int (round_half_even y)"
  by (auto simp: round_half_even_def Let_def) linarith+

lemma round_half_even_nonneg: "0 \<le> y \<Longrightarrow> 0 \<le> round_half_even y"
  by (auto simp: round_half_even_def Let_def intro: add_nonneg_nonneg)

lemma round_half_even_of_int: "round_half_even (of_int m) = m"
  by (simp add: round_half_even_def)

lemma float64_ulp_pos: "0 < float64_ulp x"
  by (simp add: float64_ulp_def)

lemma float64_nonneg: "0 \<le> x \<Longrightarrow> 0 \<le> float64 x"
  using round_half_even_nonneg [of "x / float64_ulp x"] float64_ulp_pos [of x]
  by (simp add: float64_def)

lemma float64_error: "\<bar>float64 x - x\<bar> \<le> float64_ulp x / 2"
proof -
  let ?u = "float64_ulp x"
  have u: "0 < ?u" by (rule float64_ulp_pos)
  have "\<bar>real_of_int (round_half_even (x / ?u)) - x / ?u\<bar> \<le> 1 / 2"
    using round_half_even_bounds [of "x / ?u"] by linarith
  then have "\<bar>real_of_int (round_half_even (x / ?u)) - x / ?u\<bar> * ?u \<le> 1 / 2 * ?u"
    using u by (intro mult_right_mono) simp_all
  moreover have "(real_of_int (round_half_even (x / ?u)) - x / ?u) * ?u = float64 x - x"
    using u by (simp add: float64_def left_diff_distrib)
  then have "\<bar>real_of_int (round_half_even (x / ?u)) - x / ?u\<bar> * ?u = \<bar>float64 x - x\<bar>"
    using u abs_mult_pos [of ?u "real_of_int (round_half_even (x / ?u)) - x / ?u"] by simp
  ultimately show ?thesis by simp
qed

lemma bitlen_one: "bitlen 1 = 1"
  by code_simp

lemma float64_exponent_le_zero: "\<bar>x\<bar> \<le> 1 \<Longrightarrow> float64_exponent x \<le> 0"
  using bitlen_nonneg [of "\<lceil>1 / \<bar>x\<bar>\<rceil> - 1"]
  by (cases "\<bar>x\<bar> = 1") (auto simp: float64_exponent_def Let_def bitlen_one)

lemma float64_below_two:
  assumes "0 \<le> x" "x \<le> 1"
  shows "float64 x < 2"
proof -
  have "float64_exponent x - 52 \<le> - 52"
    using assms float64_exponent_le_zero [of x] by simp
  then have "float64_ulp x \<le> 2 powi (- 52)"
    unfolding float64_ulp_def by (intro power_int_increasing) simp_all
  then have "float64_ulp x \<le> 1" by (simp add: power_int_minus)
  then show ?thesis
    using float64_error [of x] assms by linarith
qed

text \<open>The exponent is that of the binade of \<open>x\<close>, for \<open>x\<close> in the normal range.\<close>

lemma binade_ge_one:
  fixes a :: real
  assumes "1 \<le> a"
  shows "2 powi (bitlen \<lfloor>a\<rfloor> - 1) \<le> a \<and> a < 2 powi (bitlen \<lfloor>a\<rfloor> - 1 + 1)"
proof -
  let ?n = "\<lfloor>a\<rfloor>"
  have n: "0 < ?n" using assms by simp
  note b = bitlen_bounds [OF n]
  have k: "0 < bitlen ?n" using n bitlen_eq_zero_iff [of ?n] bitlen_nonneg [of ?n] by linarith
  have "(2::real) powi (bitlen ?n - 1) = 2 ^ nat (bitlen ?n - 1)"
    using k by (simp add: power_int_def)
  also have "\<dots> = real_of_int (2 ^ nat (bitlen ?n - 1))" by simp
  also have "\<dots> \<le> real_of_int ?n" using b by (intro of_int_le_iff [THEN iffD2]) simp
  also have "\<dots> \<le> a" by simp
  finally have lo: "2 powi (bitlen ?n - 1) \<le> a" .
  have "?n + 1 \<le> 2 ^ nat (bitlen ?n)" using b by simp
  then have "real_of_int (?n + 1) \<le> real_of_int (2 ^ nat (bitlen ?n))"
    by (rule of_int_le_iff [THEN iffD2])
  then have c: "real_of_int ?n + 1 \<le> 2 ^ nat (bitlen ?n)" by simp
  have d: "a < real_of_int ?n + 1" by linarith
  have "a < 2 ^ nat (bitlen ?n)" by (rule less_le_trans [OF d c])
  moreover have "(2::real) powi (bitlen ?n - 1 + 1) = 2 ^ nat (bitlen ?n)"
    using k by (simp add: power_int_def)
  ultimately show ?thesis using lo by simp
qed

lemma binade_below_one:
  fixes a :: real
  assumes "0 < a" "a < 1"
  shows "2 powi (- bitlen (\<lceil>1 / a\<rceil> - 1)) \<le> a \<and> a < 2 powi (- bitlen (\<lceil>1 / a\<rceil> - 1) + 1)"
proof -
  let ?y = "1 / a"
  let ?m = "\<lceil>?y\<rceil> - 1"
  have y: "1 < ?y" using assms by simp
  then have m: "0 < ?m" by linarith
  note b = bitlen_bounds [OF m]
  have k: "0 < bitlen ?m" using m bitlen_eq_zero_iff [of ?m] bitlen_nonneg [of ?m] by linarith
  have "\<lceil>?y\<rceil> \<le> 2 ^ nat (bitlen ?m)" using b by simp
  then have "real_of_int \<lceil>?y\<rceil> \<le> real_of_int (2 ^ nat (bitlen ?m))"
    by (rule of_int_le_iff [THEN iffD2])
  then have c: "real_of_int \<lceil>?y\<rceil> \<le> 2 ^ nat (bitlen ?m)" by simp
  have d: "?y \<le> real_of_int \<lceil>?y\<rceil>" by (rule le_of_int_ceiling)
  have up: "?y \<le> 2 ^ nat (bitlen ?m)" by (rule order_trans [OF d c])
  have "real_of_int (2 ^ nat (bitlen ?m - 1)) \<le> real_of_int ?m"
    using b by (intro of_int_le_iff [THEN iffD2]) simp
  then have c': "2 ^ nat (bitlen ?m - 1) \<le> real_of_int ?m" by simp
  have d': "real_of_int ?m < ?y" by linarith
  have low: "2 ^ nat (bitlen ?m - 1) < ?y" by (rule le_less_trans [OF c' d'])
  have p1: "(2::real) powi (- bitlen ?m) = 1 / 2 ^ nat (bitlen ?m)"
    using k by (simp add: power_int_def field_simps)
  have p2: "(2::real) powi (- bitlen ?m + 1) = 1 / 2 ^ nat (bitlen ?m - 1)"
    using k by (simp add: power_int_def field_simps)
  have "1 / 2 ^ nat (bitlen ?m) \<le> a"
    using up assms by (simp add: field_simps)
  moreover have "a < 1 / 2 ^ nat (bitlen ?m - 1)"
    using low assms by (simp add: field_simps)
  ultimately show ?thesis by (simp only: p1 p2)
qed

lemma float64_exponent_binade:
  assumes "2 powi (- 1022) \<le> \<bar>x\<bar>"
  shows "2 powi float64_exponent x \<le> \<bar>x\<bar> \<and> \<bar>x\<bar> < 2 powi (float64_exponent x + 1)"
proof -
  define e where "e = (if 1 \<le> \<bar>x\<bar> then bitlen \<lfloor>\<bar>x\<bar>\<rfloor> - 1 else - bitlen (\<lceil>1 / \<bar>x\<bar>\<rceil> - 1))"
  have "(0::real) < 2 powi (- 1022)" by simp
  then have pos: "0 < \<bar>x\<bar>" using assms by linarith
  have b: "2 powi e \<le> \<bar>x\<bar> \<and> \<bar>x\<bar> < 2 powi (e + 1)"
    using binade_ge_one [of "\<bar>x\<bar>"] binade_below_one [of "\<bar>x\<bar>"] pos
    by (cases "1 \<le> \<bar>x\<bar>") (simp_all add: e_def)
  have lt: "(2::real) powi (- 1022) < 2 powi (e + 1)" using assms b by linarith
  have "- 1022 < e + 1"
  proof (rule ccontr)
    assume "\<not> - 1022 < e + 1"
    then have "e + 1 \<le> - 1022" by simp
    then have "(2::real) powi (e + 1) \<le> 2 powi (- 1022)"
      by (intro power_int_increasing) simp_all
    with lt show False by simp
  qed
  then have "float64_exponent x = e"
    by (simp add: float64_exponent_def e_def Let_def)
  then show ?thesis using b by simp
qed

lemma float64_eval:
  "float64_exponent x = e \<Longrightarrow>
     float64 x = of_int (round_half_even (x / 2 powi (e - 52))) * 2 powi (e - 52)"
  by (simp add: float64_def float64_ulp_def)

lemma float64_zero: "float64 0 = 0"
  by (simp add: float64_def round_half_even_def)

lemma float_div_nonneg: "0 \<le> float64 a \<Longrightarrow> 0 \<le> float64 b \<Longrightarrow> 0 \<le> float_div a b"
  by (simp add: float_div_def float64_nonneg)

lemma float_div_below_two:
  assumes "0 \<le> float64 a" "float64 a \<le> float64 b"
  shows "float_div a b < 2"
proof -
  have "float64 a / float64 b \<le> 1"
    using assms by (cases "float64 b = 0") (simp_all add: divide_le_eq_1)
  moreover have "0 \<le> float64 a / float64 b" using assms by simp
  ultimately show ?thesis
    by (simp add: float_div_def float64_below_two)
qed

text \<open>Some doubles, and the doubles nearest to 0.1, 29.97 and 1.11.\<close>

lemma float64_examples:
  "float64 30 = 30" "float64 8 = 8" "float64 60 = 60" "float64 1 = 1" "float64 (- 30) = - 30"
  "float64 (15 / 4) = 15 / 4" "float64 (1 / 2) = 1 / 2" "float64 300 = 300"
proof -
  have e: "float64_exponent 30 = 4" "float64_exponent 8 = 3" "float64_exponent 60 = 5"
    "float64_exponent 1 = 0" "float64_exponent (- 30) = 4" "float64_exponent (15 / 4) = 1"
    "float64_exponent (1 / 2) = - 1" "float64_exponent 300 = 8"
    by (simp_all add: float64_exponent_def) code_simp+
  show "float64 30 = 30" by (simp add: float64_eval [OF e(1)] round_half_even_def)
  show "float64 8 = 8" by (simp add: float64_eval [OF e(2)] round_half_even_def)
  show "float64 60 = 60" by (simp add: float64_eval [OF e(3)] round_half_even_def)
  show "float64 1 = 1" by (simp add: float64_eval [OF e(4)] round_half_even_def)
  show "float64 (- 30) = - 30" by (simp add: float64_eval [OF e(5)] round_half_even_def)
  show "float64 (15 / 4) = 15 / 4" by (simp add: float64_eval [OF e(6)] round_half_even_def)
  show "float64 (1 / 2) = 1 / 2" by (simp add: float64_eval [OF e(7)] round_half_even_def)
  show "float64 300 = 300" by (simp add: float64_eval [OF e(8)] round_half_even_def)
qed

lemma float64_tenth: "float64 (1 / 10) = tenth" "float64 tenth = tenth"
proof -
  have e: "float64_exponent (1 / 10) = - 4" "float64_exponent tenth = - 4"
    by (simp_all add: float64_exponent_def tenth_def) code_simp+
  show "float64 (1 / 10) = tenth"
    by (simp add: float64_eval [OF e(1)] round_half_even_def tenth_def)
  have "float64 tenth = of_int (round_half_even (tenth / 2 powi (- 4 - 52))) * 2 powi (- 4 - 52)"
    by (rule float64_eval [OF e(2)])
  also have "\<dots> = tenth" by (simp add: tenth_def round_half_even_def)
  finally show "float64 tenth = tenth" .
qed

lemma float64_decimals:
  "float64 (2997 / 100) = 1054475631502295 / 35184372088832"
  "float64 (111 / 100) = 4998995586381251 / 4503599627370496"
proof -
  have e: "float64_exponent (2997 / 100) = 4" "float64_exponent (111 / 100) = 0"
    by (simp_all add: float64_exponent_def) code_simp+
  show "float64 (2997 / 100) = 1054475631502295 / 35184372088832"
    by (simp add: float64_eval [OF e(1)] round_half_even_def)
  show "float64 (111 / 100) = 4998995586381251 / 4503599627370496"
    by (simp add: float64_eval [OF e(2)] round_half_even_def)
qed

lemma float_div_examples:
  "float_div 30 8 = 15 / 4" "float_div 30 60 = 1 / 2" "float_div (- 30) 1 = - 30"
  "float_div 30 tenth = 300" "float_div 30 (1 / 10) = 300"
  "float_div (2997 / 100) (111 / 100) = 7599824371187711 / 281474976710656"
proof -
  show "float_div 30 8 = 15 / 4" "float_div 30 60 = 1 / 2" "float_div (- 30) 1 = - 30"
    by (simp_all add: float_div_def float64_examples)
  have e: "float64_exponent (30 / tenth) = 8"
    by (simp add: float64_exponent_def tenth_def) code_simp
  have "float64 (30 / tenth) =
          of_int (round_half_even (30 / tenth / 2 powi (8 - 52))) * 2 powi (8 - 52)"
    by (rule float64_eval [OF e])
  also have "\<dots> = 300"
    by (simp add: tenth_def round_half_even_def)
  finally have q: "float64 (30 / tenth) = 300" .
  show "float_div 30 tenth = 300" "float_div 30 (1 / 10) = 300"
    by (simp_all only: float_div_def float64_examples float64_tenth q)
  let ?a = "1054475631502295 / 35184372088832 :: real"
  let ?b = "4998995586381251 / 4503599627370496 :: real"
  have e': "float64_exponent (?a / ?b) = 4"
    by (simp add: float64_exponent_def) code_simp
  have "float64 (?a / ?b) =
          of_int (round_half_even (?a / ?b / 2 powi (4 - 52))) * 2 powi (4 - 52)"
    by (rule float64_eval [OF e'])
  also have "\<dots> = 7599824371187711 / 281474976710656"
    by (simp add: round_half_even_def)
  finally show "float_div (2997 / 100) (111 / 100) = 7599824371187711 / 281474976710656"
    by (simp only: float_div_def float64_decimals)
qed

subsection \<open>Frame extraction\<close>

lemma read_loop_kept:
  "read_loop F fi xs k acc =
     acc @ map (\<lambda>(j, frame). (frame, real j / F))
             (filter (\<lambda>(j, frame). int j mod fi = 0) (enumerate k xs))"
  by (induction xs arbitrary: k acc) auto

lemma mod_int_nat:
  assumes "1 \<le> fi"
  shows "(int j mod fi = 0) = (j mod nat fi = 0)"
proof -
  have "int j mod fi = int (j mod nat fi)"
    using assms zmod_int [of j "nat fi"] by simp
  then show ?thesis by simp
qed

lemma frame_interval_ge1: "1 \<le> frame_interval F R"
  by (simp add: frame_interval_def Let_def)

lemma kept_samples_nonempty: "frames \<noteq> [] \<Longrightarrow> kept_samples s F frames \<noteq> []"
  by (cases frames) (simp_all add: kept_samples_def)

lemma extract_frames_kept:
  assumes "is_opened v" "float64 (video_fps v) \<noteq> 0" "float64 fps \<noteq> 0"
    "\<bar>float_div (float64 (video_fps v)) (float64 fps)\<bar> < 2 ^ 1024"
  shows "extract_frames v fps =
           (if decoded v = [] then Inl NoFramesExtracted
            else Inr (kept_samples (nat (frame_interval (float64 (video_fps v)) (float64 fps)))
                        (float64 (video_fps v)) (decoded v)))"
proof -
  let ?F = "float64 (video_fps v)"
  let ?fi = "frame_interval ?F (float64 fps)"
  have "read_loop ?F ?fi (decoded v) 0 [] = kept_samples (nat ?fi) ?F (decoded v)"
    by (simp add: read_loop_kept kept_samples_def mod_int_nat [OF frame_interval_ge1])
  then show ?thesis
    using assms kept_samples_nonempty [of "decoded v" "nat ?fi" ?F]
    by (cases "decoded v = []") (simp_all add: extract_frames_def Let_def kept_samples_def)
qed

lemma frame_interval_floor:
  assumes "0 \<le> float64 F" "0 \<le> float64 R"
  shows "frame_interval F R = max 1 \<lfloor>float_div F R\<rfloor>"
  using float_div_nonneg [OF assms]
  by (simp add: frame_interval_def py_int_def Let_def max_def)

lemma frame_interval_one:
  assumes "0 \<le> float64 F" "float64 F \<le> float64 R"
  shows "frame_interval F R = 1"
proof -
  have "0 \<le> float64 R" using assms by simp
  then have "0 \<le> float_div F R" using assms(1) by (simp add: float_div_nonneg)
  moreover have lt: "float_div F R < 2" using assms by (rule float_div_below_two)
  ultimately have pi: "py_int (float_div F R) = \<lfloor>float_div F R\<rfloor>"
    and le: "\<lfloor>float_div F R\<rfloor> \<le> 1"
    by (simp add: py_int_def, linarith)
  obtain n where n: "\<lfloor>float_div F R\<rfloor> = n" by simp
  show ?thesis
    using le by (simp add: frame_interval_def pi n)
qed

text \<open>
  The interval at some rates. At 30 frames per second sampled every tenth of a second
  the exact quotient of the doubles is below 300 and the rounded one is 300; at 29.97
  sampled at 1.11 the exact quotient of the decimals is 27 and the rounded quotient of
  the doubles is below 27.
\<close>

lemma frame_interval_examples:
  "frame_interval 30 8 = 3" "frame_interval 30 60 = 1" "frame_interval (- 30) 1 = 1"
  "frame_interval 30 tenth = 300" "frame_interval 30 (1 / 10) = 300"
  "frame_interval (2997 / 100) (111 / 100) = 26"
  by (simp_all add: frame_interval_def py_int_def float_div_examples)

lemma exact_quotient_examples:
  "\<lfloor>30 / tenth\<rfloor> = 299" "\<lfloor>(2997 / 100) / (111 / 100) :: real\<rfloor> = 27"
  by (simp_all add: tenth_def)

lemma kept_samples_stride_one:
  "map fst (kept_samples 1 F frames) = frames"
proof -
  have "map (fst \<circ> (\<lambda>(k, frame). (frame, real k / F))) (enumerate 0 frames) = map snd (enumerate 0 frames)"
    by (rule map_cong) auto
  then show ?thesis by (simp add: kept_samples_def)
qed

lemma kept_samples_timestamps:
  "map snd (kept_samples s F frames) =
     map (\<lambda>k. real k / F) (filter (\<lambda>k. k mod s = 0) [0..<length frames])"
proof -
  have "map snd (kept_samples s F frames) =
        map (\<lambda>k. real k / F) (map fst (filter ((\<lambda>k. k mod s = 0) \<circ> fst) (enumerate 0 frames)))"
    by (simp add: kept_samples_def comp_def case_prod_unfold)
  also have "map fst (filter ((\<lambda>k. k mod s = 0) \<circ> fst) (enumerate 0 frames)) =
             filter (\<lambda>k. k mod s = 0) (map fst (enumerate 0 frames))"
    by (simp only: filter_map)
  also have "map fst (enumerate 0 frames) = [0..<length frames]"
    by (simp add: map_fst_enumerate)
  finally show ?thesis .
qed

lemma kept_samples_increasing:
  assumes "0 < F"
  shows "sorted_wrt (<) (map snd (kept_samples s F frames))"
proof -
  have "sorted_wrt (<) (filter (\<lambda>k. k mod s = 0) [0..<length frames])"
    by (rule sorted_wrt_filter) (rule sorted_wrt_upt)
  then have "sorted_wrt (\<lambda>a b. real a / F < real b / F) (filter (\<lambda>k. k mod s = 0) [0..<length frames])"
    by (rule sorted_wrt_mono_rel [rotated]) (use assms in \<open>simp add: divide_strict_right_mono\<close>)
  then show ?thesis
    by (simp add: kept_samples_timestamps sorted_wrt_map)
qed

lemma kept_samples_first:
  "frames \<noteq> [] \<Longrightarrow> kept_samples s F frames ! 0 = (frames ! 0, 0)"
  by (cases frames) (simp_all add: kept_samples_def)

text \<open>
  Claim C3, as stated: the stride is \<open>max(1, round(F / R))\<close>. The source computes
  \<^verbatim>\<open>int(video_fps / fps)\<close>, which truncates: at 30 frames per second sampled at 8
  per second the quotient is 3.75, the source keeps every 3rd frame and the claim every
  4th (whichever way \<open>round\<close> breaks ties).
\<close>

theorem rounded_stride_counterexample:
  "frame_interval 30 8 = 3 \<and> spec_stride 30 8 = 4
   \<and> extract_frames thirty_fps_video 8 = Inr [(line_frame, 0), (white_frame, 1 / 10)]
   \<and> kept_samples (spec_stride 30 8) 30 (decoded thirty_fps_video)
       = [(line_frame, 0), (line_frame, 2 / 15)]
   \<and> extract_frames thirty_fps_video 8
       \<noteq> Inr (kept_samples (spec_stride 30 8) 30 (decoded thirty_fps_video))"
proof -
  have a: "frame_interval 30 8 = 3"
    by (rule frame_interval_examples)
  have b: "spec_stride 30 8 = 4"
    by (simp add: spec_stride_def round_def)
  have c: "extract_frames thirty_fps_video 8 = Inr [(line_frame, 0), (white_frame, 1 / 10)]"
    by (simp add: extract_frames_def thirty_fps_video_def a float_div_examples float64_examples)
  have d: "kept_samples 4 30 (decoded thirty_fps_video) = [(line_frame, 0), (line_frame, 2 / 15)]"
    by (simp add: kept_samples_def thirty_fps_video_def enumerate_simps)
  show ?thesis using a b c d by simp
qed

text \<open>
  Claim C3, amended: for a source that opens with native rate \<open>F > 0\<close> and a target rate
  \<open>R > 0\<close> (both doubles), the stride is \<open>max(1, int(F / R))\<close>, where \<open>F / R\<close> is the
  double-precision quotient and \<open>int\<close> truncates it (extraction fails with an overflow
  error when that quotient is infinite); extraction keeps exactly the native frames
  whose index \<open>k\<close> satisfies \<open>k mod stride = 0\<close>, in order, each with timestamp \<open>k / F\<close>
  (and fails with \<open>NoFramesExtracted\<close> when there is no frame); when \<open>R \<ge> F\<close> the stride
  is 1 and every native frame is kept.
\<close>

theorem extract_frames_stride:
  assumes "is_opened v" "float64 (video_fps v) = video_fps v" "float64 fps = fps"
    "0 < video_fps v" "0 < fps"
  shows "frame_interval (video_fps v) fps = max 1 \<lfloor>float_div (video_fps v) fps\<rfloor>
   \<and> float_div (video_fps v) fps = float64 (video_fps v / fps)
   \<and> extract_frames v fps =
       (if 2 ^ 1024 \<le> float_div (video_fps v) fps then Inl OverflowError
        else if decoded v = [] then Inl NoFramesExtracted
        else Inr (kept_samples (nat (max 1 \<lfloor>float_div (video_fps v) fps\<rfloor>)) (video_fps v)
                    (decoded v)))
   \<and> (video_fps v \<le> fps \<longrightarrow>
        max 1 \<lfloor>float_div (video_fps v) fps\<rfloor> = 1
        \<and> (decoded v \<noteq> [] \<longrightarrow>
             (\<exists>samples. extract_frames v fps = Inr samples \<and> map fst samples = decoded v)))"
proof -
  let ?q = "float_div (video_fps v) fps"
  have F: "0 \<le> float64 (video_fps v)" and R: "0 \<le> float64 fps"
    using assms by simp_all
  have q: "0 \<le> ?q" using F R by (rule float_div_nonneg)
  have fd: "?q = float64 (video_fps v / fps)"
    using assms by (simp add: float_div_def)
  have fi: "frame_interval (video_fps v) fps = max 1 \<lfloor>?q\<rfloor>"
    using F R by (rule frame_interval_floor)
  have ex: "extract_frames v fps =
       (if 2 ^ 1024 \<le> ?q then Inl OverflowError
        else if decoded v = [] then Inl NoFramesExtracted
        else Inr (kept_samples (nat (max 1 \<lfloor>?q\<rfloor>)) (video_fps v) (decoded v)))"
  proof (cases "2 ^ 1024 \<le> ?q")
    case True
    then show ?thesis using assms q by (simp add: extract_frames_def)
  next
    case False
    then have "\<bar>float_div (float64 (video_fps v)) (float64 fps)\<bar> < 2 ^ 1024"
      using q assms by simp
    then show ?thesis
      using assms False extract_frames_kept [of v fps] by (simp add: fi)
  qed
  have small: "?q < 2" if "video_fps v \<le> fps"
    using that assms by (intro float_div_below_two) simp_all
  have one: "max 1 \<lfloor>?q\<rfloor> = 1" if "video_fps v \<le> fps"
    using that assms frame_interval_one [of "video_fps v" fps] by (simp add: fi)
  have "\<exists>samples. extract_frames v fps = Inr samples \<and> map fst samples = decoded v"
    if "video_fps v \<le> fps" "decoded v \<noteq> []"
  proof -
    have "\<not> 2 ^ 1024 \<le> ?q" using small [OF that(1)] by simp
    then show ?thesis
      using that ex one kept_samples_stride_one by simp
  qed
  with fi fd ex one show ?thesis by blast
qed

theorem extract_frames_stride_witness:
  "is_opened thirty_fps_video \<and> float64 (video_fps thirty_fps_video) = video_fps thirty_fps_video
   \<and> float64 8 = 8 \<and> 0 < video_fps thirty_fps_video \<and> (0::real) < 8
   \<and> extract_frames thirty_fps_video 8 = Inr [(line_frame, 0), (white_frame, 1 / 10)]
   \<and> float64 60 = 60 \<and> video_fps thirty_fps_video \<le> 60
   \<and> extract_frames thirty_fps_video 60 =
       Inr [(line_frame, 0), (white_frame, 1 / 30), (line_frame, 1 / 15),
            (white_frame, 1 / 10), (line_frame, 2 / 15)]
   \<and> float64 tenth = tenth \<and> 0 < tenth
   \<and> frame_interval (video_fps thirty_fps_video) tenth = 300"
proof -
  have v: "is_opened thirty_fps_video" "video_fps thirty_fps_video = 30"
    "decoded thirty_fps_video = [line_frame, white_frame, line_frame, white_frame, line_frame]"
    by (simp_all add: thirty_fps_video_def)
  have t: "0 < tenth" by (simp add: tenth_def)
  note a = extract_frames_stride [of thirty_fps_video 8]
  note b = extract_frames_stride [of thirty_fps_video 60]
  note c = extract_frames_stride [of thirty_fps_video tenth]
  have "extract_frames thirty_fps_video 8 = Inr [(line_frame, 0), (white_frame, 1 / 10)]"
    using a by (simp add: v float64_examples float_div_examples kept_samples_def enumerate_simps)
  moreover have "extract_frames thirty_fps_video 60 =
       Inr [(line_frame, 0), (white_frame, 1 / 30), (line_frame, 1 / 15),
            (white_frame, 1 / 10), (line_frame, 2 / 15)]"
    using b by (simp add: v float64_examples float_div_examples kept_samples_def enumerate_simps)
  moreover have "frame_interval (video_fps thirty_fps_video) tenth = 300"
    using c t by (simp add: v float64_examples float64_tenth float_div_examples)
  ultimately show ?thesis
    using t by (simp add: v float64_examples float64_tenth)
qed

text \<open>
  Claim C10: every successful extraction from a source with native rate \<open>F > 0\<close> returns
  a non-empty sequence whose first element is the native frame 0 with timestamp exactly
  0, and whose timestamps are strictly increasing.
\<close>

theorem extraction_starts_at_zero:
  assumes "extract_frames v fps = Inr samples" "0 < video_fps v"
  shows "decoded v \<noteq> [] \<and> samples \<noteq> [] \<and> samples ! 0 = (decoded v ! 0, 0)
         \<and> sorted_wrt (<) (map snd samples)"
proof -
  let ?F = "float64 (video_fps v)"
  have o: "is_opened v" and f: "?F \<noteq> 0" and r: "float64 fps \<noteq> 0"
    and q: "\<bar>float_div ?F (float64 fps)\<bar> < 2 ^ 1024"
    using assms(1) by (auto simp: extract_frames_def Let_def split: if_splits)
  have "0 \<le> ?F" using assms(2) by (simp add: float64_nonneg)
  then have pos: "0 < ?F" using f by simp
  let ?s = "nat (frame_interval ?F (float64 fps))"
  have k: "extract_frames v fps =
           (if decoded v = [] then Inl NoFramesExtracted
            else Inr (kept_samples ?s ?F (decoded v)))"
    using o f r q by (rule extract_frames_kept)
  then have ne: "decoded v \<noteq> []" and eq: "samples = kept_samples ?s ?F (decoded v)"
    using assms(1) by (auto split: if_splits)
  show ?thesis
    using ne pos
    by (simp add: eq kept_samples_nonempty kept_samples_first kept_samples_increasing)
qed

theorem extraction_starts_at_zero_witness:
  "extract_frames thirty_fps_video 8 = Inr [(line_frame, 0), (white_frame, 1 / 10)]
   \<and> 0 < video_fps thirty_fps_video
   \<and> [(line_frame, 0), (white_frame, 1 / 10 :: real)] ! 0 = (decoded thirty_fps_video ! 0, 0)
   \<and> sorted_wrt (<) (map snd [(line_frame, 0), (white_frame, 1 / 10 :: real)])"
proof -
  have e: "extract_frames thirty_fps_video 8 = Inr [(line_frame, 0), (white_frame, 1 / 10)]"
    by (simp add: extract_frames_def thirty_fps_video_def frame_interval_examples
        float_div_examples float64_examples)
  have p: "0 < video_fps thirty_fps_video"
    by (simp add: thirty_fps_video_def)
  show ?thesis
    using extraction_starts_at_zero [OF e p] e p by simp
qed

subsection \<open>Indeterminate frame rate\<close>

text \<open>
  Claim C8, as stated: a source that opens and reports a frame rate that is zero or
  negative fails with \<open>RateIndeterminate\<close>. The guard of the source is
  \<^verbatim>\<open>video_fps == 0\<close>: a negative rate passes it, the interval becomes 1 and samples
  with negative timestamps are returned.
\<close>

theorem negative_rate_counterexample:
  "is_opened negative_rate_video \<and> video_fps negative_rate_video < 0
   \<and> extract_frames negative_rate_video 1 = Inr [(line_frame, 0), (white_frame, - 1 / 30)]"
  by (simp add: negative_rate_video_def extract_frames_def frame_interval_examples
      float_div_examples float64_examples)

text \<open>
  Claim C8, amended: a source that opens and reports a frame rate equal to zero fails
  with \<open>RateIndeterminate\<close>, whatever the target rate, and no samples are produced.
\<close>

theorem zero_rate_indeterminate:
  "is_opened v \<Longrightarrow> video_fps v = 0 \<Longrightarrow> extract_frames v fps = Inl RateIndeterminate"
  by (simp add: extract_frames_def float64_zero)

theorem zero_rate_indeterminate_witness:
  "is_opened zero_rate_video \<and> video_fps zero_rate_video = 0
   \<and> extract_frames zero_rate_video 1 = Inl RateIndeterminate"
  using zero_rate_indeterminate [of zero_rate_video 1]
  by (simp add: zero_rate_video_def)

subsection \<open>Ranges of the metrics\<close>

lemma calculate_sharpness_nonneg: "0 \<le> laplacian_var f \<Longrightarrow> 0 \<le> calculate_sharpness f"
  by (simp add: calculate_sharpness_def)

lemma box_areas_nonneg:
  "list_all (\<lambda>(x, y, w, h). 0 \<le> w \<and> 0 \<le> h) bs \<Longrightarrow> (0::int) \<le> (\<Sum>(x, y, w, h)\<leftarrow>bs. w * h)"
  by (induction bs) auto

lemma detect_faces_nonneg:
  assumes "list_all (\<lambda>(x, y, w, h). 0 \<le> w \<and> 0 \<le> h) (faces f)"
  shows "0 \<le> fst (detect_faces f)"
proof -
  have "0 \<le> real_of_int (total_face_area (faces f) 0) / real (gray_height f * gray_width f) * 100"
    using box_areas_nonneg [OF assms] by (simp add: total_face_area_sum)
  then show ?thesis
    by (simp add: detect_faces_def Let_def)
qed

lemma calculate_brightness_balance_range:
  "0 \<le> calculate_brightness_balance f \<and> calculate_brightness_balance f \<le> 100"
  by (simp add: calculate_brightness_balance_def)

lemma calculate_composition_score_range:
  "calculate_composition_score f = Inr c \<Longrightarrow> 0 \<le> c \<and> c \<le> 100"
  by (auto simp: calculate_composition_score_def Let_def split: if_splits)

lemma calculate_composition_score_returns:
  assumes "20 \<le> gray_height f" "20 \<le> gray_width f"
  shows "\<exists>c. calculate_composition_score f = Inr c"
proof -
  have "0 < gray_height f div 20" "0 < gray_width f div 20"
    using assms by (simp_all add: div_greater_zero_iff)
  then show ?thesis
    by (simp add: calculate_composition_score_def Let_def)
qed

lemma score_frame_returns:
  assumes "20 \<le> gray_height f" "20 \<le> gray_width f"
  shows "\<exists>s. score_frame f w = Inr s"
  using calculate_composition_score_returns [OF assms]
  by (auto simp: score_frame_def Let_def split: prod.splits)

lemma score_frame_fields:
  assumes "score_frame f w = Inr s"
  shows "sharpness s = calculate_sharpness f \<and> face_clarity s = fst (detect_faces f)
         \<and> face_count s = snd (detect_faces f) \<and> brightness s = calculate_brightness_balance f
         \<and> calculate_composition_score f = Inr (composition s)
         \<and> overall s = weighted_sum (weights_used w) s"
  using assms
  by (auto simp: score_frame_def weighted_sum_def weights_used_def Let_def
      split: prod.splits sum.splits)

lemma overall_nonneg:
  assumes "wf_frame f" "weight_set w" "score_frame f w = Inr s"
  shows "0 \<le> overall s"
proof -
  note fs = score_frame_fields [OF assms(3)]
  have "0 \<le> sharpness s" "0 \<le> face_clarity s" "0 \<le> brightness s" "0 \<le> composition s"
    using assms(1) fs calculate_sharpness_nonneg [of f] detect_faces_nonneg [of f]
      calculate_brightness_balance_range [of f] calculate_composition_score_range [of f "composition s"]
    by (simp_all add: wf_frame_def)
  then show ?thesis
    using assms(2) fs by (simp add: weighted_sum_def weight_set_def)
qed

subsection \<open>The example frames\<close>

lemma line_dims: "gray_height line_frame = 20" "gray_width line_frame = 20"
  by (simp_all add: line_frame_def)

lemma line_regions:
  "np_sum (rot_region line_frame (6, 6)) = 510" "np_size (rot_region line_frame (6, 6)) = 4"
  "np_sum (rot_region line_frame (12, 6)) = 0" "np_size (rot_region line_frame (12, 6)) = 4"
  "np_sum (rot_region line_frame (6, 12)) = 510" "np_size (rot_region line_frame (6, 12)) = 4"
  "np_sum (rot_region line_frame (12, 12)) = 0" "np_size (rot_region line_frame (12, 12)) = 4"
  by code_simp+

lemma line_rot_loop: "rot_loop line_frame (rot_points line_frame) 0 = 51 / 2"
  by (simp add: rot_points_def line_dims line_regions edge_density_def)

lemma line_halves:
  "np_sum (slice2 (edges line_frame) 0 20 0 10) = 5100"
  "np_sum (slice2 (edges line_frame) 0 20 10 20) = 0"
  "np_sum (slice2 (edges line_frame) 0 10 0 20) = 2550"
  "np_sum (slice2 (edges line_frame) 10 20 0 20) = 2550"
  "np_sum (slice2 (edges line_frame) 6 12 6 12) = 1530"
  "np_sum (edges line_frame) = 5100"
  by code_simp+

lemma line_center_penalty: "center_penalty line_frame = 0"
  by (simp add: center_penalty_def line_dims line_halves)

lemma line_composition: "calculate_composition_score line_frame = Inr (71 / 2)"
  by (simp add: calculate_composition_score_def balance_score_def line_dims line_halves
      line_rot_loop line_center_penalty balance_def u64_add_def u64_sub_def)

subsection \<open>Rule-of-thirds contribution\<close>

lemma rot_loop_sum:
  "rot_loop f ps acc =
     acc + (\<Sum>p\<leftarrow>ps. if np_size (rot_region f p) = 0 then 0
                      else min 25 (edge_density (rot_region f p) / 10))"
  by (induction ps arbitrary: acc) (simp_all add: Let_def)

lemma sum_list_binary:
  "list_all (\<lambda>v. v = 0 \<or> v = 255) xs \<Longrightarrow> sum_list xs = 255 * length (filter (\<lambda>v. v \<noteq> (0::nat)) xs)"
  by (induction xs) auto

lemma list_all_slice: "list_all P xs \<Longrightarrow> list_all P (slice xs a b)"
  unfolding slice_def list_all_iff
  by (meson in_set_dropD in_set_takeD)

lemma binary_slice2:
  assumes "list_all (list_all P) m"
  shows "list_all P (concat (slice2 m y1 y2 x1 x2))"
proof -
  have rows: "list_all (list_all P) (slice m y1 y2)" using assms by (rule list_all_slice)
  have "list_all (\<lambda>row. list_all P (slice row x1 x2)) (slice m y1 y2)"
    by (rule list.pred_mono_strong [OF rows]) (rule list_all_slice)
  then show ?thesis
    by (auto simp: slice2_def list_all_iff)
qed

lemma binary_rot_region:
  "binary_edges f \<Longrightarrow> list_all (\<lambda>v. v = 0 \<or> v = 255) (concat (rot_region f p))"
  by (cases p) (simp add: rot_region_def binary_edges_def Let_def binary_slice2)

lemma edge_density_scaled:
  assumes "binary_edges f"
  shows "edge_density (rot_region f p) = 255 * edge_fraction (rot_region f p)"
  using sum_list_binary [OF binary_rot_region [OF assms, of p]]
  by (simp add: edge_density_def edge_fraction_def edge_count_def np_sum_def)

lemma rot_loop_scaled:
  assumes "binary_edges f"
  shows "rot_loop f (rot_points f) 0 = scaled_contribution f"
  by (simp add: rot_loop_sum scaled_contribution_def edge_density_scaled [OF assms] cong: if_cong)

lemma edge_density_nonneg: "0 \<le> edge_density region"
  by (simp add: edge_density_def)

lemma sum_list_bounded:
  fixes g :: "'a \<Rightarrow> real"
  assumes "\<And>x. x \<in> set xs \<Longrightarrow> 0 \<le> g x \<and> g x \<le> c"
  shows "0 \<le> (\<Sum>x\<leftarrow>xs. g x) \<and> (\<Sum>x\<leftarrow>xs. g x) \<le> c * real (length xs)"
  using assms
proof (induction xs)
  case Nil
  show ?case by simp
next
  case (Cons x xs)
  have "0 \<le> g x \<and> g x \<le> c" using Cons.prems by simp
  moreover have "0 \<le> (\<Sum>x\<leftarrow>xs. g x) \<and> (\<Sum>x\<leftarrow>xs. g x) \<le> c * real (length xs)"
    using Cons.IH Cons.prems by simp
  ultimately show ?case by (simp add: algebra_simps)
qed

lemma rot_points_length: "length (rot_points f) = 4"
  by (simp add: rot_points_def Let_def)

lemma rot_loop_range: "0 \<le> rot_loop f (rot_points f) 0 \<and> rot_loop f (rot_points f) 0 \<le> 100"
proof -
  let ?g = "\<lambda>p. if np_size (rot_region f p) = 0 then 0
                 else min 25 (edge_density (rot_region f p) / 10)"
  have g: "0 \<le> ?g p \<and> ?g p \<le> 25" for p
    using edge_density_nonneg [of "rot_region f p"] by simp
  have "0 \<le> (\<Sum>p\<leftarrow>rot_points f. ?g p) \<and> (\<Sum>p\<leftarrow>rot_points f. ?g p) \<le> 25 * real (length (rot_points f))"
    using sum_list_bounded [of "rot_points f" ?g 25] g by blast
  then show ?thesis
    by (simp add: rot_loop_sum rot_points_length)
qed

subsection \<open>Composition metric\<close>

lemma line_edge_counts:
  "edge_count (rot_region line_frame (6, 6)) = 2"
  "edge_count (rot_region line_frame (12, 6)) = 0"
  "edge_count (rot_region line_frame (6, 12)) = 2"
  "edge_count (rot_region line_frame (12, 12)) = 0"
  by code_simp+

lemma line_binary: "binary_edges line_frame"
  by code_simp

lemma line_fraction_contribution: "fraction_contribution line_frame = 1 / 10"
  by (simp add: fraction_contribution_def rot_points_def line_dims edge_fraction_def
      line_edge_counts line_regions)

text \<open>
  Claim C7, as stated, takes the fraction of edge pixels of the window as the density.
  The source divides the sum of the window's edge-map values by the window size, and
  an edge pixel has the value 255: on the example frame two windows are half edge
  pixels, the source awards \<open>min(25, 127.5 / 10) = 12.75\<close> for each, 25.5 in all, where
  the claim's reading awards 0.05 for each, 0.1 in all.
\<close>

theorem fraction_density_counterexample:
  "rot_loop line_frame (rot_points line_frame) 0 = 51 / 2
   \<and> fraction_contribution line_frame = 1 / 10
   \<and> calculate_composition_score line_frame = Inr (71 / 2)"
  by (simp add: line_rot_loop line_fraction_contribution line_composition)

lemma rot_region_window:
  "rot_region f (x, y) =
     slice2 (edges f) (y - max (gray_height f) (gray_width f) div 12)
       (min (gray_height f) (y + max (gray_height f) (gray_width f) div 12))
       (x - max (gray_height f) (gray_width f) div 12)
       (min (gray_width f) (x + max (gray_height f) (gray_width f) div 12))"
proof -
  have "nat (max 0 (int a - int b)) = a - b" for a b :: nat
    by simp
  then show ?thesis
    by (simp add: rot_region_def Let_def)
qed

text \<open>
  Claim C7, amended: with \<open>third_w = width div 3\<close>, \<open>third_h = height div 3\<close> and
  \<open>r = max(height, width) div 12\<close>, the four points are
  \<open>(third_w, 2 * third_w) x (third_h, 2 * third_h)\<close>; the window of a point \<open>(x, y)\<close> is
  rows \<open>y - r\<close> to \<open>y + r\<close> and columns \<open>x - r\<close> to \<open>x + r\<close>, clipped to the frame; its
  density is the mean edge-map value, that is 255 times the fraction of edge pixels;
  each point with a non-empty window is awarded \<open>min(25, density / 10)\<close>, so the
  contribution is between 0 and 100 before the balance and centre-penalty terms. When
  the metric returns (it does for frames at least 20 pixels high and wide), the score is
  \<open>clamp(contribution + balance - penalty, 0, 100)\<close>.
\<close>

theorem thirds_contribution:
  assumes "binary_edges f"
  shows "rot_points f =
           [(gray_width f div 3, gray_height f div 3), (2 * (gray_width f div 3), gray_height f div 3),
            (gray_width f div 3, 2 * (gray_height f div 3)),
            (2 * (gray_width f div 3), 2 * (gray_height f div 3))]
    \<and> (\<forall>x y. rot_region f (x, y) =
          slice2 (edges f) (y - max (gray_height f) (gray_width f) div 12)
            (min (gray_height f) (y + max (gray_height f) (gray_width f) div 12))
            (x - max (gray_height f) (gray_width f) div 12)
            (min (gray_width f) (x + max (gray_height f) (gray_width f) div 12)))
    \<and> rot_loop f (rot_points f) 0 = scaled_contribution f
    \<and> 0 \<le> rot_loop f (rot_points f) 0 \<and> rot_loop f (rot_points f) 0 \<le> 100
    \<and> (\<forall>s. calculate_composition_score f = Inr s \<longrightarrow>
          s = spec_clamp (rot_loop f (rot_points f) 0 + balance_score f - center_penalty f) 0 100
          \<and> 0 \<le> s \<and> s \<le> 100)
    \<and> (20 \<le> gray_height f \<and> 20 \<le> gray_width f \<longrightarrow> (\<exists>s. calculate_composition_score f = Inr s))"
proof -
  have a: "rot_points f =
           [(gray_width f div 3, gray_height f div 3), (2 * (gray_width f div 3), gray_height f div 3),
            (gray_width f div 3, 2 * (gray_height f div 3)),
            (2 * (gray_width f div 3), 2 * (gray_height f div 3))]"
    by (simp add: rot_points_def Let_def)
  have b: "\<forall>x y. rot_region f (x, y) =
          slice2 (edges f) (y - max (gray_height f) (gray_width f) div 12)
            (min (gray_height f) (y + max (gray_height f) (gray_width f) div 12))
            (x - max (gray_height f) (gray_width f) div 12)
            (min (gray_width f) (x + max (gray_height f) (gray_width f) div 12))"
    using rot_region_window by blast
  have c: "rot_loop f (rot_points f) 0 = scaled_contribution f"
    using assms by (rule rot_loop_scaled)
  note d = rot_loop_range [of f]
  have e: "\<forall>s. calculate_composition_score f = Inr s \<longrightarrow>
          s = spec_clamp (rot_loop f (rot_points f) 0 + balance_score f - center_penalty f) 0 100
          \<and> 0 \<le> s \<and> s \<le> 100"
    by (auto simp: calculate_composition_score_def Let_def clamp_eq [symmetric] split: if_splits)
  have g: "20 \<le> gray_height f \<and> 20 \<le> gray_width f \<longrightarrow> (\<exists>s. calculate_composition_score f = Inr s)"
    using calculate_composition_score_returns by blast
  from a b c d e g show ?thesis
    by (elim conjE) (intro conjI; assumption)
qed

theorem thirds_contribution_witness:
  "binary_edges line_frame \<and> scaled_contribution line_frame = 51 / 2
   \<and> 20 \<le> gray_height line_frame \<and> 20 \<le> gray_width line_frame
   \<and> calculate_composition_score line_frame = Inr (71 / 2)
   \<and> 71 / 2 = spec_clamp (rot_loop line_frame (rot_points line_frame) 0
                            + balance_score line_frame - center_penalty line_frame) 0 100"
proof -
  note t = thirds_contribution [OF line_binary]
  have c: "rot_loop line_frame (rot_points line_frame) 0 = scaled_contribution line_frame"
    using t by (elim conjE)
  have e: "\<forall>s. calculate_composition_score line_frame = Inr s \<longrightarrow>
          s = spec_clamp (rot_loop line_frame (rot_points line_frame) 0
                          + balance_score line_frame - center_penalty line_frame) 0 100
          \<and> 0 \<le> s \<and> s \<le> 100"
    using t by (elim conjE)
  have "71 / 2 = spec_clamp (rot_loop line_frame (rot_points line_frame) 0
                            + balance_score line_frame - center_penalty line_frame) 0 100"
    using e [rule_format, OF line_composition] by (elim conjE)
  moreover have "scaled_contribution line_frame = 51 / 2"
    using c line_rot_loop by simp
  ultimately show ?thesis
    using line_binary line_composition by (simp add: line_dims)
qed

subsection \<open>Scores of the example frames\<close>

lemma white_dims: "gray_height white_frame = 20" "gray_width white_frame = 20"
  by (simp_all add: white_frame_def)

lemma white_regions:
  "np_sum (rot_region white_frame (6, 6)) = 0" "np_size (rot_region white_frame (6, 6)) = 4"
  "np_sum (rot_region white_frame (12, 6)) = 0" "np_size (rot_region white_frame (12, 6)) = 4"
  "np_sum (rot_region white_frame (6, 12)) = 0" "np_size (rot_region white_frame (6, 12)) = 4"
  "np_sum (rot_region white_frame (12, 12)) = 0" "np_size (rot_region white_frame (12, 12)) = 4"
  by code_simp+

lemma white_halves:
  "np_sum (slice2 (edges white_frame) 0 20 0 10) = 0"
  "np_sum (slice2 (edges white_frame) 0 20 10 20) = 0"
  "np_sum (slice2 (edges white_frame) 0 10 0 20) = 0"
  "np_sum (slice2 (edges white_frame) 10 20 0 20) = 0"
  "np_sum (edges white_frame) = 0"
  by code_simp+

lemma white_composition: "calculate_composition_score white_frame = Inr 0"
  by (simp add: calculate_composition_score_def balance_score_def center_penalty_def
      rot_points_def white_dims white_halves white_regions edge_density_def balance_def u64_add_def)

lemma line_brightness: "calculate_brightness_balance line_frame = 11350 / 127"
  by (simp add: calculate_brightness_balance_def line_clip)
     (simp add: line_frame_def brightness_score_def clipping_score_def contrast_score_def)

lemma white_brightness: "calculate_brightness_balance white_frame = 585 / 127"
  by (simp add: calculate_brightness_balance_def white_clip)
     (simp add: white_frame_def brightness_score_def clipping_score_def contrast_score_def)

lemma line_sharpness_faces: "calculate_sharpness line_frame = 25" "detect_faces line_frame = (0, 0)"
  by (simp_all add: calculate_sharpness_def detect_faces_def line_frame_def)

lemma white_sharpness_faces: "calculate_sharpness white_frame = 0" "detect_faces white_frame = (0, 0)"
  by (simp_all add: calculate_sharpness_def detect_faces_def white_frame_def)

lemma line_score_frame: "score_frame line_frame None = Inr line_scores"
  by (simp add: score_frame_def line_composition line_brightness line_sharpness_faces
      DEFAULT_WEIGHTS_def line_scores_def)

lemma white_score_frame: "score_frame white_frame None = Inr white_scores"
  by (simp add: score_frame_def white_composition white_brightness white_sharpness_faces
      DEFAULT_WEIGHTS_def white_scores_def)

lemma overall_examples: "overall line_scores = 34797 / 1016" "overall white_scores = 117 / 127"
  by (simp_all add: line_scores_def white_scores_def)

subsection \<open>Scans whose callback is advisory\<close>

lemma call_progress_advisory:
  assumes "advisory cb"
  shows "call_progress cb a (h, frames, w) =
           (None, (fst (snd (call_progress cb a (h, frames, w))), frames, w))"
proof (cases cb)
  case None
  then show ?thesis by (simp add: call_progress_def)
next
  case (Some c)
  show ?thesis
  proof (cases "truthy c")
    case False
    then show ?thesis using Some by (simp add: call_progress_def)
  next
    case True
    obtain e h' fr' w' where r: "invoke c a (length frames) (h, frames, w) = (e, (h', fr', w'))"
      by (metis prod_cases3)
    have "fst (invoke c a (length frames) (h, frames, w)) = None"
      and "snd (snd (invoke c a (length frames) (h, frames, w))) = snd (h, frames, w)"
      using assms Some True by (simp_all add: advisory_def)
    then have "e = None" "fr' = frames" "w' = w" using r by simp_all
    then show ?thesis using Some True r by (simp add: call_progress_def)
  qed
qed

lemma scored_prefix_Cons:
  "scored_prefix w ((frame, timestamp) # xs) =
     (case score_frame frame w of Inl e \<Rightarrow> [] | Inr s \<Rightarrow> (frame, timestamp) # scored_prefix w xs)"
  by (simp add: scored_prefix_def split: sum.splits)

lemma callback_state_step:
  "callback_state cb frames w i (Suc m) h =
     callback_state cb frames w (Suc i) m (fst (snd (call_progress cb (i + 1) (h, frames, w))))"
proof -
  have "[i..<i + Suc m] = i # [Suc i..<Suc i + m]"
    by (simp add: upt_conv_Cons del: upt_Suc)
  then show ?thesis
    by (simp add: callback_state_def del: upt_Suc)
qed

lemma callback_state_zero: "callback_state cb frames w i 0 h = h"
  by (simp add: callback_state_def)

lemma find_best_loop_advisory:
  assumes "advisory cb"
  shows "find_best_loop cb i st (h, frames, w) =
           Some (scan_best w (drop i frames) i st,
                 (callback_state cb frames w i (length (scored_prefix w (drop i frames))) h,
                  frames, w))"
proof (induction "length frames - i" arbitrary: i st h)
  case 0
  then have "drop i frames = []" and "\<not> i < length frames" by simp_all
  then show ?case
    by (subst find_best_loop.simps) (simp add: scored_prefix_def callback_state_zero)
next
  case (Suc n)
  then have lt: "i < length frames" by simp
  obtain frame timestamp where x: "frames ! i = (frame, timestamp)" by (cases "frames ! i")
  have d: "drop i frames = (frame, timestamp) # drop (Suc i) frames"
    using lt x by (simp add: Cons_nth_drop_Suc [symmetric])
  obtain bi bs bd where st: "st = (bi, bs, bd)" by (cases st)
  show ?case
  proof (cases "score_frame frame w")
    case (Inl e)
    then show ?thesis
      using lt x by (subst find_best_loop.simps)
        (simp add: d st scored_prefix_Cons callback_state_zero)
  next
    case (Inr s)
    obtain h1 where c: "call_progress cb (Suc i) (h, frames, w) = (None, (h1, frames, w))"
      using call_progress_advisory [OF assms, of "Suc i" h frames w] by blast
    have n: "n = length frames - Suc i" using Suc.hyps(2) by simp
    note ih = Suc.hyps(1) [OF n, of _ h1]
    show ?thesis
      using lt x Inr
      by (subst find_best_loop.simps)
        (simp add: d st scored_prefix_Cons callback_state_step c ih)
  qed
qed


subsection \<open>Best-frame selection\<close>

lemma scan_best_returns:
  assumes "\<forall>x \<in> set xs. \<exists>s. score_frame (fst x) w = Inr s"
  shows "\<exists>st'. scan_best w xs i st = Inr st'"
  using assms
proof (induction xs arbitrary: i st)
  case Nil
  show ?case by (cases st) simp
next
  case (Cons x xs)
  obtain frame timestamp where x: "x = (frame, timestamp)" by (cases x)
  obtain bi bs bd where st: "st = (bi, bs, bd)" by (cases st)
  obtain s where s: "score_frame frame w = Inr s" using Cons.prems x by auto
  show ?case
    using Cons.IH Cons.prems by (simp add: x st s)
qed

text \<open>
  The invariant of the selection loop: the final best score bounds every score of the
  scanned samples; and either the state is unchanged, or it holds the first sample that
  attains the final best score, which is above the initial one.
\<close>

lemma scan_best_first_max:
  assumes "scan_best w xs i (bi, bs, bd) = Inr (bi', bs', bd')"
  shows "bs \<le> bs'
    \<and> (\<forall>j<length xs. \<forall>sj. score_frame (fst (xs ! j)) w = Inr sj \<longrightarrow> overall sj \<le> bs')
    \<and> ((bi', bs', bd') = (bi, bs, bd)
        \<or> (\<exists>k s. k < length xs \<and> bi' = i + k \<and> score_frame (fst (xs ! k)) w = Inr s
              \<and> bd' = Some s \<and> bs' = overall s \<and> bs < bs'
              \<and> (\<forall>j<k. \<forall>sj. score_frame (fst (xs ! j)) w = Inr sj \<longrightarrow> overall sj < bs')))"
  using assms
proof (induction xs arbitrary: i bi bs bd)
  case Nil
  then show ?case by simp
next
  case (Cons x xs)
  obtain frame timestamp where x: "x = (frame, timestamp)" by (cases x)
  obtain s0 where s0: "score_frame frame w = Inr s0"
    using Cons.prems by (cases "score_frame frame w") (simp_all add: x)
  define st1 where "st1 = (if overall s0 > bs then (i, overall s0, Some s0) else (bi, bs, bd))"
  obtain bi1 bs1 bd1 where st1: "st1 = (bi1, bs1, bd1)" by (cases st1)
  have run: "scan_best w xs (i + 1) (bi1, bs1, bd1) = Inr (bi', bs', bd')"
    using Cons.prems by (simp add: x s0 st1_def [symmetric] st1)
  note ih = Cons.IH [OF run]
  have le1: "bs \<le> bs1" and s0le: "overall s0 \<le> bs1"
    using st1 by (auto simp: st1_def split: if_splits)
  have A: "bs \<le> bs'" using ih le1 by simp
  have B: "overall sj \<le> bs'" if "j < length (x # xs)" "score_frame (fst ((x # xs) ! j)) w = Inr sj" for j sj
  proof (cases j)
    case 0
    then have "sj = s0" using that s0 by (simp add: x)
    then show ?thesis using s0le ih by simp
  next
    case (Suc j')
    then show ?thesis using that ih by simp
  qed
  have C: "(bi', bs', bd') = (bi, bs, bd)
        \<or> (\<exists>k s. k < length (x # xs) \<and> bi' = i + k \<and> score_frame (fst ((x # xs) ! k)) w = Inr s
              \<and> bd' = Some s \<and> bs' = overall s \<and> bs < bs'
              \<and> (\<forall>j<k. \<forall>sj. score_frame (fst ((x # xs) ! j)) w = Inr sj \<longrightarrow> overall sj < bs'))"
  proof -
    from ih consider
        (same) "(bi', bs', bd') = (bi1, bs1, bd1)"
      | (later) k s where "k < length xs" "bi' = i + 1 + k" "score_frame (fst (xs ! k)) w = Inr s"
          "bd' = Some s" "bs' = overall s" "bs1 < bs'"
          "\<forall>j<k. \<forall>sj. score_frame (fst (xs ! j)) w = Inr sj \<longrightarrow> overall sj < bs'"
      by blast
    then show ?thesis
    proof cases
      case same
      show ?thesis
      proof (cases "overall s0 > bs")
        case True
        then have "bi' = i + 0 \<and> bd' = Some s0 \<and> bs' = overall s0 \<and> bs < bs'"
          using same st1 by (simp add: st1_def)
        moreover have "score_frame (fst ((x # xs) ! 0)) w = Inr s0" by (simp add: x s0)
        ultimately show ?thesis by (intro disjI2 exI [of _ 0] exI [of _ s0]) simp
      next
        case False
        then show ?thesis using same st1 by (simp add: st1_def)
      qed
    next
      case later
      have lt: "overall sj < bs'" if "j < Suc k" "score_frame (fst ((x # xs) ! j)) w = Inr sj" for j sj
      proof (cases j)
        case 0
        then have "sj = s0" using that s0 by (simp add: x)
        then show ?thesis using s0le later(6) by simp
      next
        case (Suc j')
        then show ?thesis using that later(7) by simp
      qed
      have "Suc k < length (x # xs) \<and> bi' = i + Suc k
            \<and> score_frame (fst ((x # xs) ! Suc k)) w = Inr s
            \<and> bd' = Some s \<and> bs' = overall s \<and> bs < bs'"
        using later le1 by simp
      with lt show ?thesis by (intro disjI2 exI [of _ "Suc k"] exI [of _ s]) blast
    qed
  qed
  from A B C show ?case by blast
qed

lemma find_best_frame_advisory:
  assumes "advisory cb"
  shows "find_best_frame frames w cb h =
     (if frames = [] then Some (Inl EmptyInput, (h, frames, w))
      else Some (case scan_best w frames 0 (0, - 1, None) of
                   Inl e \<Rightarrow> Inl e
                 | Inr (best_index, best_score, best_scores_dict) \<Rightarrow>
                     if best_index < length frames
                     then Inr (best_index, fst (frames ! best_index), snd (frames ! best_index),
                               best_scores_dict)
                     else Inl IndexError,
                 (callback_state cb frames w 0 (length (scored_prefix w frames)) h, frames, w)))"
  by (simp add: find_best_frame_def find_best_loop_advisory [OF assms] case_prod_unfold
      split: sum.splits)


lemma find_best_frame_selects:
  assumes "frames \<noteq> []" "weight_set w" "\<forall>x \<in> set frames. wf_frame (fst x)" "advisory cb"
  shows "\<exists>i s. i < length frames
     \<and> map_option fst (find_best_frame frames w cb h) =
         Some (Inr (i, fst (frames ! i), snd (frames ! i), Some s))
     \<and> score_frame (fst (frames ! i)) w = Inr s
     \<and> (\<forall>j<length frames. \<forall>sj. score_frame (fst (frames ! j)) w = Inr sj \<longrightarrow> overall sj \<le> overall s)
     \<and> (\<forall>j<i. \<forall>sj. score_frame (fst (frames ! j)) w = Inr sj \<longrightarrow> overall sj < overall s)"
proof -
  have ok: "\<forall>x \<in> set frames. \<exists>s. score_frame (fst x) w = Inr s"
  proof
    fix x assume "x \<in> set frames"
    with assms(3) have "wf_frame (fst x)" by (rule bspec)
    then have "20 \<le> gray_height (fst x)" "20 \<le> gray_width (fst x)"
      by (simp_all add: wf_frame_def)
    then show "\<exists>s. score_frame (fst x) w = Inr s" by (rule score_frame_returns)
  qed
  obtain st' where run': "scan_best w frames 0 (0, - 1, None) = Inr st'"
    using scan_best_returns [OF ok, of 0 "(0, - 1, None)"] ..
  obtain bi' bs' bd' where st': "st' = (bi', bs', bd')" by (cases st')
  have run: "scan_best w frames 0 (0, - 1, None) = Inr (bi', bs', bd')"
    using run' st' by simp
  note inv = scan_best_first_max [OF run]
  have bound: "\<forall>j<length frames. \<forall>sj. score_frame (fst (frames ! j)) w = Inr sj \<longrightarrow> overall sj \<le> bs'"
    using inv by (rule conjunct2 [THEN conjunct1])
  have alt: "(bi', bs', bd') = (0, - 1, None)
        \<or> (\<exists>k s. k < length frames \<and> bi' = 0 + k \<and> score_frame (fst (frames ! k)) w = Inr s
              \<and> bd' = Some s \<and> bs' = overall s \<and> - 1 < bs'
              \<and> (\<forall>j<k. \<forall>sj. score_frame (fst (frames ! j)) w = Inr sj \<longrightarrow> overall sj < bs'))"
    using inv by (rule conjunct2 [THEN conjunct2])
  have pos: "0 < length frames" using assms(1) by simp
  then have mem: "frames ! 0 \<in> set frames" by simp
  obtain s0 where s0: "score_frame (fst (frames ! 0)) w = Inr s0"
    using bspec [OF ok mem] ..
  have "wf_frame (fst (frames ! 0))" using assms(3) mem by (rule bspec)
  then have "0 \<le> overall s0" using assms(2) s0 by (rule overall_nonneg)
  moreover have "overall s0 \<le> bs'" using bound [rule_format, OF pos s0] .
  ultimately have "bs' \<noteq> - 1" by simp
  then have "(bi', bs', bd') \<noteq> (0, - 1, None)" by simp
  with alt obtain k s where k: "k < length frames" "bi' = 0 + k"
      "score_frame (fst (frames ! k)) w = Inr s" "bd' = Some s" "bs' = overall s"
      "\<forall>j<k. \<forall>sj. score_frame (fst (frames ! j)) w = Inr sj \<longrightarrow> overall sj < bs'"
    by (elim disjE exE conjE) simp_all
  have res: "map_option fst (find_best_frame frames w cb h) =
               Some (Inr (k, fst (frames ! k), snd (frames ! k), Some s))"
    using assms(1) k(1,2,4) by (simp add: find_best_frame_advisory [OF assms(4)] run)
  have b2: "\<forall>j<length frames. \<forall>sj. score_frame (fst (frames ! j)) w = Inr sj \<longrightarrow> overall sj \<le> overall s"
    using bound k(5) by simp
  have b3: "\<forall>j<k. \<forall>sj. score_frame (fst (frames ! j)) w = Inr sj \<longrightarrow> overall sj < overall s"
    using k(6) k(5) by simp
  show ?thesis
    using k(1) res k(3) b2 b3 by (intro exI [of _ k] exI [of _ s] conjI)
qed


text \<open>
  Claim C2: for a non-empty sample list and a weight set, the sample that \<open>find_best\<close>
  returns has the maximal overall score, and every sample with an equal overall score
  is at the same or a later index: the first sample attaining the maximum wins.
\<close>

theorem find_best_first_of_ties:
  assumes "frames \<noteq> []" "weight_set w" "\<forall>x \<in> set frames. wf_frame (fst x)" "advisory cb"
  shows "\<exists>i s. i < length frames
     \<and> map_option fst (find_best_frame frames w cb h) =
         Some (Inr (i, fst (frames ! i), snd (frames ! i), Some s))
     \<and> score_frame (fst (frames ! i)) w = Inr s
     \<and> (\<forall>j<length frames. \<forall>sj. score_frame (fst (frames ! j)) w = Inr sj \<longrightarrow>
           overall sj \<le> overall s \<and> (overall sj = overall s \<longrightarrow> i \<le> j))"
proof -
  obtain i s where sel: "i < length frames"
     "map_option fst (find_best_frame frames w cb h) =
        Some (Inr (i, fst (frames ! i), snd (frames ! i), Some s))"
     "score_frame (fst (frames ! i)) w = Inr s"
     "\<forall>j<length frames. \<forall>sj. score_frame (fst (frames ! j)) w = Inr sj \<longrightarrow> overall sj \<le> overall s"
     "\<forall>j<i. \<forall>sj. score_frame (fst (frames ! j)) w = Inr sj \<longrightarrow> overall sj < overall s"
    using find_best_frame_selects [OF assms, of h] by (elim exE conjE)
  have tie: "\<forall>j<length frames. \<forall>sj. score_frame (fst (frames ! j)) w = Inr sj \<longrightarrow>
           overall sj \<le> overall s \<and> (overall sj = overall s \<longrightarrow> i \<le> j)"
  proof (intro allI impI conjI)
    fix j sj
    assume j: "j < length frames" and sj: "score_frame (fst (frames ! j)) w = Inr sj"
    show "overall sj \<le> overall s" using sel(4) [rule_format, OF j sj] .
    assume eq: "overall sj = overall s"
    show "i \<le> j"
    proof (rule ccontr)
      assume "\<not> i \<le> j"
      then have "j < i" by simp
      then have "overall sj < overall s" using sel(5) [rule_format, of j sj] sj by simp
      then show False using eq by simp
    qed
  qed
  show ?thesis
    using sel(1,2,3) tie by (intro exI [of _ i] exI [of _ s] conjI)
qed

subsection \<open>Progress callback\<close>


lemma foldl_const: "foldl (\<lambda>s k. s) h ks = h"
  by (induction ks) simp_all


lemma callback_state_Some:
  "callback_state (Some c) frames w i m h =
     (if truthy c
      then foldl (\<lambda>s k. fst (snd (invoke c (k + 1) (length frames) (s, frames, w)))) h [i..<i + m]
      else h)"
  by (simp add: callback_state_def call_progress_def foldl_const)



subsection \<open>The selection properties on the example samples\<close>

lemma wf_line: "wf_frame line_frame"
  by (simp add: wf_frame_def line_frame_def)

lemma wf_white: "wf_frame white_frame"
  by (simp add: wf_frame_def white_frame_def)

lemma tie_hyps:
  "tie_samples \<noteq> []" "weight_set None" "\<forall>x \<in> set tie_samples. wf_frame (fst x)"
  by (simp_all add: tie_samples_def weight_set_def weights_used_def DEFAULT_WEIGHTS_def wf_line wf_white)

lemma tie_nth:
  "tie_samples ! 0 = (white_frame, 0)" "tie_samples ! Suc 0 = (line_frame, 1)"
  "tie_samples ! 2 = (line_frame, 2)" "length tie_samples = 3"
  by (simp_all add: tie_samples_def)

lemma advisory_log: "advisory (Some log_callback)"
  by (simp add: advisory_def log_callback_def)

lemma tie_scored: "scored_prefix None tie_samples = tie_samples"
  by (simp add: scored_prefix_def tie_samples_def white_score_frame line_score_frame)

lemma tie_log:
  "callback_state (Some log_callback) tie_samples None 0 3 [] = [(1, 3), (2, 3), (3, 3)]"
proof -
  have "[0..<3] = [0, 1, 2::nat]" by (simp add: upt_rec)
  then show ?thesis
    by (simp add: callback_state_Some log_callback_def tie_nth)
qed

lemma find_best_tie:
  "find_best_frame tie_samples None (Some log_callback) [] =
     Some (Inr (1, line_frame, 1, Some line_scores), ([(1, 3), (2, 3), (3, 3)], tie_samples, None))"
proof -
  have "scan_best None tie_samples 0 (0, - 1, None) = Inr (1, 34797 / 1016, Some line_scores)"
    by (simp add: tie_samples_def white_score_frame line_score_frame overall_examples)
  moreover have "tie_samples \<noteq> []" by (simp add: tie_samples_def)
  ultimately show ?thesis
    by (simp add: find_best_frame_advisory [OF advisory_log] tie_scored tie_log tie_nth)
qed


theorem find_best_first_of_ties_witness:
  "tie_samples \<noteq> [] \<and> weight_set None \<and> wf_frame white_frame \<and> wf_frame line_frame
   \<and> map_option fst (find_best_frame tie_samples None (Some log_callback) [])
       = Some (Inr (1, line_frame, 1, Some line_scores))
   \<and> score_frame (fst (tie_samples ! 1)) None = Inr line_scores
   \<and> score_frame (fst (tie_samples ! 2)) None = Inr line_scores
   \<and> score_frame (fst (tie_samples ! 0)) None = Inr white_scores
   \<and> overall white_scores \<le> overall line_scores"
proof -
  obtain i s where r: "i < length tie_samples"
      "map_option fst (find_best_frame tie_samples None (Some log_callback) []) =
         Some (Inr (i, fst (tie_samples ! i), snd (tie_samples ! i), Some s))"
      "score_frame (fst (tie_samples ! i)) None = Inr s"
      "\<forall>j<length tie_samples. \<forall>sj. score_frame (fst (tie_samples ! j)) None = Inr sj \<longrightarrow>
           overall sj \<le> overall s \<and> (overall sj = overall s \<longrightarrow> i \<le> j)"
    using find_best_first_of_ties [OF tie_hyps advisory_log, of "[]"]
    by (elim exE conjE)
  have sel: "i = 1" "s = line_scores"
    using r(2) by (simp_all add: find_best_tie)
  have w: "score_frame (fst (tie_samples ! 0)) None = Inr white_scores"
    by (simp add: tie_nth white_score_frame)
  have l: "score_frame (fst (tie_samples ! 2)) None = Inr line_scores"
    by (simp add: tie_nth line_score_frame)
  have "0 < length tie_samples" by (simp add: tie_nth)
  then have "overall white_scores \<le> overall line_scores"
    using r(4) [rule_format, OF _ w] sel by simp
  then show ?thesis
    using r(1,2,3) sel w l tie_hyps wf_line wf_white by (simp add: tie_nth)
qed


end
